theory Spec2Isabelle
  imports Main "HOL-Library.Char_ord" "HOL-Library.List_Lexorder"
begin

section \<open>Strings\<close>

text \<open>
  Python's \<^verbatim>\<open>str\<close> is modelled by \<^typ>\<open>string\<close>, a list of characters of the type
  \<^typ>\<open>char\<close> (the 256 characters of one byte; every character the program names in a
  pattern, a keyword or a delimiter is one of them).  The two string operations the
  program uses outside the pattern matcher are the substring test \<^verbatim>\<open>keyword in aff\<close> and
  \<^verbatim>\<open>", ".join(xs)\<close>.
\<close>

fun starts_with :: "string \<Rightarrow> string \<Rightarrow> bool" where
  "starts_with [] s = True"
| "starts_with (p # ps) [] = False"
| "starts_with (p # ps) (c # cs) = (p = c \<and> starts_with ps cs)"

text \<open>\<^verbatim>\<open>sub in s\<close>: the text \<open>sub\<close> occurs somewhere in \<open>s\<close>.\<close>

fun str_contains :: "string \<Rightarrow> string \<Rightarrow> bool" where
  "str_contains sub [] = starts_with sub []"
| "str_contains sub (c # cs) = (starts_with sub (c # cs) \<or> str_contains sub cs)"

text \<open>\<^verbatim>\<open>sep.join(xs)\<close>.\<close>

fun join :: "string \<Rightarrow> string list \<Rightarrow> string" where
  "join sep [] = []"
| "join sep [x] = x"
| "join sep (x # y # ys) = x @ sep @ join sep (y # ys)"

section \<open>Errors\<close>

text \<open>
  Every exception the program can raise is a value of \<open>py_error\<close>; a computation that can
  raise returns \<open>py_error + 'a\<close>, with \<open>Inl\<close> for the exception.
\<close>

datatype py_error =
    IndexError
  | ConnectionError
  | HTTPError nat
  | JSONDecodeError
  | OSError

text \<open>\<^verbatim>\<open>xs[i]\<close> for a non-negative index: out of range raises \<^verbatim>\<open>IndexError\<close>.\<close>

definition getitem :: "'a list \<Rightarrow> nat \<Rightarrow> py_error + 'a" where
  "getitem xs i = (if i < length xs then Inr (xs ! i) else Inl IndexError)"

section \<open>The affiliation classifier\<close>

text \<open>
  \<^verbatim>\<open>NON_ACADEMIC_KEYWORDS = ["Inc", "Ltd", "Pharmaceutical", "Biotech", "Corp", "LLC"]\<close>
\<close>

definition NON_ACADEMIC_KEYWORDS :: "string list" where
  "NON_ACADEMIC_KEYWORDS = [''Inc'', ''Ltd'', ''Pharmaceutical'', ''Biotech'', ''Corp'', ''LLC'']"

text \<open>\<^verbatim>\<open>any(keyword in aff for keyword in NON_ACADEMIC_KEYWORDS)\<close>\<close>

definition is_non_academic :: "string \<Rightarrow> bool" where
  "is_non_academic aff = list_ex (\<lambda>keyword. str_contains keyword aff) NON_ACADEMIC_KEYWORDS"

text \<open>
  The loop of \<^verbatim>\<open>fetch_paper_details\<close>:
  \<^verbatim>\<open>
    non_academic_authors, companies = [], set()
    for i, aff in enumerate(affiliations):
        if any(keyword in aff for keyword in NON_ACADEMIC_KEYWORDS):
            non_academic_authors.append(authors[i] if i < len(authors) else "Unknown")
            companies.add(aff)
  \<close>
  \<open>classify_loop\<close> is the loop from index \<open>i\<close> on, with the rest of \<open>affiliations\<close> still
  to visit and the two accumulators as they stand; \<open>authors[i]\<close> is the fallible
  \<open>getitem\<close>, behind the guard the source puts before it.
\<close>

fun classify_loop ::
  "string list \<Rightarrow> nat \<Rightarrow> string list \<Rightarrow> string list \<times> string set \<Rightarrow>
     py_error + (string list \<times> string set)" where
  "classify_loop authors i [] acc = Inr acc"
| "classify_loop authors i (aff # affs) (non_academic_authors, companies) =
     (if is_non_academic aff then
        (case (if i < length authors then getitem authors i else Inr ''Unknown'') of
           Inl e \<Rightarrow> Inl e
         | Inr a \<Rightarrow>
             classify_loop authors (Suc i) affs (non_academic_authors @ [a], insert aff companies))
      else classify_loop authors (Suc i) affs (non_academic_authors, companies))"

definition classify :: "string list \<Rightarrow> string list \<Rightarrow> py_error + (string list \<times> string set)" where
  "classify authors affiliations = classify_loop authors 0 affiliations ([], {})"

section \<open>Pattern matching\<close>

text \<open>
  The program reads its fields with \<^verbatim>\<open>re.search\<close> and \<^verbatim>\<open>re.findall\<close>.  Its seven patterns
  are sequences of three kinds of pieces: a literal text, a repetition of one character
  class (\<^verbatim>\<open>\d{4}\<close>, \<^verbatim>\<open>.*?\<close>, \<^verbatim>\<open>[A-Za-z]+\<close>), and an alternation of two such repetitions
  (\<^verbatim>\<open>[A-Za-z]+|\d{1,2}\<close>).  The matcher below is the backtracking matcher of \<^verbatim>\<open>re\<close> for
  such sequences: the leftmost start wins, and at a start the first match in the order
  the backtracking tries them.
\<close>

datatype quant = Greedy | Lazy

text \<open>\<open>Rep cls lo hi q\<close>: between \<open>lo\<close> and \<open>hi\<close> characters of the class (no upper bound
  when \<open>hi\<close> is \<open>None\<close>), as many as possible first when \<open>q\<close> is \<open>Greedy\<close>, as few as
  possible first when it is \<open>Lazy\<close>.\<close>

datatype rep = Rep "char \<Rightarrow> bool" nat "nat option" quant

datatype piece = Lit string | One rep | Either rep rep

type_synonym pattern = "piece list"

text \<open>A match records the text each piece consumed, in order.\<close>

type_synonym match = "string list"

text \<open>\<^verbatim>\<open>m.group(0)\<close>, the whole match.\<close>

definition group0 :: "match \<Rightarrow> string" where
  "group0 m = concat m"

text \<open>\<^verbatim>\<open>m.group(1)\<close>: in each pattern of the program that has a group, the group is the
  second piece.\<close>

definition group1 :: "match \<Rightarrow> string" where
  "group1 m = (case m of _ # g # _ \<Rightarrow> g | _ \<Rightarrow> [])"

text \<open>The numbers of characters a repetition may take at the head of \<open>s\<close>, in the order
  the matcher tries them.\<close>

fun counts :: "rep \<Rightarrow> string \<Rightarrow> nat list" where
  "counts (Rep cls lo hi q) s =
     (let avail = length (takeWhile cls s);
          top = (case hi of None \<Rightarrow> avail | Some h \<Rightarrow> min h avail);
          ks = [lo..<Suc top]
      in case q of Greedy \<Rightarrow> rev ks | Lazy \<Rightarrow> ks)"

fun first_some :: "('a \<Rightarrow> 'b option) \<Rightarrow> 'a list \<Rightarrow> 'b option" where
  "first_some f [] = None"
| "first_some f (x # xs) = (case f x of Some y \<Rightarrow> Some y | None \<Rightarrow> first_some f xs)"

text \<open>A match of the whole pattern that starts at the head of \<open>s\<close>.\<close>

fun match_here :: "pattern \<Rightarrow> string \<Rightarrow> match option" where
  "match_here [] s = Some []"
| "match_here (Lit l # ps) s =
     (if starts_with l s then map_option ((#) l) (match_here ps (drop (length l) s)) else None)"
| "match_here (One r # ps) s =
     first_some (\<lambda>k. map_option ((#) (take k s)) (match_here ps (drop k s))) (counts r s)"
| "match_here (Either a b # ps) s =
     first_some (\<lambda>k. map_option ((#) (take k s)) (match_here ps (drop k s)))
       (counts a s @ counts b s)"

text \<open>\<^verbatim>\<open>re.search(p, s)\<close>: the match at the leftmost position that has one.\<close>

fun re_search :: "pattern \<Rightarrow> string \<Rightarrow> match option" where
  "re_search p [] = match_here p []"
| "re_search p (c # cs) =
     (case match_here p (c # cs) of Some m \<Rightarrow> Some m | None \<Rightarrow> re_search p cs)"

text \<open>
  \<^verbatim>\<open>re.findall(p, s)\<close> for a pattern with one group: the group of every match, left to
  right, each search resuming where the last match ended (\<open>skip\<close> counts the characters
  of the last match still to pass).  The patterns it is used with begin and end with a
  literal, so no match is empty.
\<close>

fun findall_from :: "pattern \<Rightarrow> nat \<Rightarrow> string \<Rightarrow> string list" where
  "findall_from p skip [] = []"
| "findall_from p (Suc n) (c # cs) = findall_from p n cs"
| "findall_from p 0 (c # cs) =
     (case match_here p (c # cs) of
        None \<Rightarrow> findall_from p 0 cs
      | Some m \<Rightarrow> group1 m # findall_from p (length (group0 m) - 1) cs)"

definition re_findall :: "pattern \<Rightarrow> string \<Rightarrow> string list" where
  "re_findall p s = findall_from p 0 s"

subsection \<open>Character classes\<close>

text \<open>\<^verbatim>\<open>\d\<close>; on the characters of \<^typ>\<open>char\<close> these are the ten ASCII digits.\<close>

definition digit :: "char \<Rightarrow> bool" where
  "digit c \<longleftrightarrow> c \<in> set ''0123456789''"

text \<open>\<^verbatim>\<open>[A-Za-z]\<close>\<close>

definition alpha :: "char \<Rightarrow> bool" where
  "alpha c \<longleftrightarrow> c \<in> set ''ABCDEFGHIJKLMNOPQRSTUVWXYZabcdefghijklmnopqrstuvwxyz''"

text \<open>\<^verbatim>\<open>.\<close> (without \<^verbatim>\<open>re.DOTALL\<close>): any character but the line feed.\<close>

definition dot :: "char \<Rightarrow> bool" where
  "dot c \<longleftrightarrow> c \<noteq> CHR 0x0A"

text \<open>\<^verbatim>\<open>[a-zA-Z0-9._%+-]\<close>\<close>

definition email_local :: "char \<Rightarrow> bool" where
  "email_local c \<longleftrightarrow> alpha c \<or> digit c \<or> c \<in> set ''._%+-''"

text \<open>\<^verbatim>\<open>[a-zA-Z0-9.-]\<close>\<close>

definition email_domain :: "char \<Rightarrow> bool" where
  "email_domain c \<longleftrightarrow> alpha c \<or> digit c \<or> c \<in> set ''.-''"

subsection \<open>The patterns of the program\<close>

text \<open>\<^verbatim>\<open><Year>(\d{4})</Year>\<close>\<close>

definition year_re :: pattern where
  "year_re = [Lit ''<Year>'', One (Rep digit 4 (Some 4) Greedy), Lit ''</Year>'']"

text \<open>\<^verbatim>\<open><Month>([A-Za-z]+|\d{1,2})</Month>\<close>\<close>

definition month_re :: pattern where
  "month_re = [Lit ''<Month>'',
               Either (Rep alpha 1 None Greedy) (Rep digit 1 (Some 2) Greedy),
               Lit ''</Month>'']"

text \<open>\<^verbatim>\<open><Day>(\d{1,2})</Day>\<close>\<close>

definition day_re :: pattern where
  "day_re = [Lit ''<Day>'', One (Rep digit 1 (Some 2) Greedy), Lit ''</Day>'']"

text \<open>\<^verbatim>\<open><ArticleTitle>(.*?)</ArticleTitle>\<close>\<close>

definition title_re :: pattern where
  "title_re = [Lit ''<ArticleTitle>'', One (Rep dot 0 None Lazy), Lit ''</ArticleTitle>'']"

text \<open>\<^verbatim>\<open><Author>(.*?)</Author>\<close>\<close>

definition author_re :: pattern where
  "author_re = [Lit ''<Author>'', One (Rep dot 0 None Lazy), Lit ''</Author>'']"

text \<open>\<^verbatim>\<open><Affiliation>(.*?)</Affiliation>\<close>\<close>

definition affiliation_re :: pattern where
  "affiliation_re = [Lit ''<Affiliation>'', One (Rep dot 0 None Lazy), Lit ''</Affiliation>'']"

text \<open>\<^verbatim>\<open>([a-zA-Z0-9._%+-]+@[a-zA-Z0-9.-]+\.[a-zA-Z]{2,})\<close>\<close>

definition email_re :: pattern where
  "email_re = [One (Rep email_local 1 None Greedy), Lit ''@'',
               One (Rep email_domain 1 None Greedy), Lit ''.'',
               One (Rep alpha 2 None Greedy)]"

section \<open>The publication date\<close>

text \<open>
  \<^verbatim>\<open>
  def clean_publication_date(text: str) -> str:
      year_match = re.search(r"<Year>(\d{4})</Year>", text)
      month_match = re.search(r"<Month>([A-Za-z]+|\d{1,2})</Month>", text)
      day_match = re.search(r"<Day>(\d{1,2})</Day>", text)
      year = year_match.group(1) if year_match else "Unknown"
      month = month_match.group(1) if month_match else "Unknown"
      day = day_match.group(1) if day_match else ""
      if day:
          return f"{year}-{month}-{day}"
      elif month != "Unknown":
          return f"{year}-{month}"
      return year  # If only the year is found
  \<close>
\<close>

definition clean_publication_date :: "string \<Rightarrow> string" where
  "clean_publication_date text =
     (let year_match = re_search year_re text;
          month_match = re_search month_re text;
          day_match = re_search day_re text;
          year = (case year_match of Some m \<Rightarrow> group1 m | None \<Rightarrow> ''Unknown'');
          month = (case month_match of Some m \<Rightarrow> group1 m | None \<Rightarrow> ''Unknown'');
          day = (case day_match of Some m \<Rightarrow> group1 m | None \<Rightarrow> [])
      in if day \<noteq> [] then year @ ''-'' @ month @ ''-'' @ day
         else if month \<noteq> ''Unknown'' then year @ ''-'' @ month
         else year)"

section \<open>The network and the record of a paper\<close>

text \<open>
  \<^verbatim>\<open>requests.get(url, params=params, headers=HEADERS)\<close> is a call to the outside world.  The
  model takes the world's answer as a parameter: a function from the state of the network
  \<open>'s\<close>, the URL, the parameters and the headers to the outcome of the call (an exception
  of the transport, or a response) and the state after it.
\<close>

datatype param = PStr string | PInt int

record response =
  status_code :: nat
  resp_text :: string
  resp_json :: "(string \<rightharpoonup> (string \<rightharpoonup> string list)) option"

text \<open>
  \<open>resp_text\<close> is \<^verbatim>\<open>response.text\<close>.  \<open>resp_json\<close> is what \<^verbatim>\<open>response.json()\<close> decodes:
  \<open>None\<close> when the body is not JSON (the call raises), otherwise the dictionary the code
  reads, a dict of dicts of identifier lists, as the annotation \<^verbatim>\<open>List[str]\<close> of
  \<^verbatim>\<open>fetch_paper_ids\<close> has it.
\<close>

type_synonym 's http_get =
  "'s \<Rightarrow> string \<Rightarrow> (string \<times> param) list \<Rightarrow> (string \<times> string) list \<Rightarrow>
     (py_error + response) \<times> 's"

text \<open>
  The environment of a run: the network, the order in which this process iterates over
  a set of strings (Python fixes it per process, by the strings' hashes), and whether
  \<^verbatim>\<open>open(filename, "w")\<close> succeeds.
\<close>

record 's env =
  http_get :: "'s http_get"
  set_iter :: "string set \<Rightarrow> string list"
  can_open :: "string \<Rightarrow> bool"

definition PUBMED_API_URL :: string where
  "PUBMED_API_URL = ''https://eutils.ncbi.nlm.nih.gov/entrez/eutils/esearch.fcgi''"

definition PUBMED_FETCH_URL :: string where
  "PUBMED_FETCH_URL = ''https://eutils.ncbi.nlm.nih.gov/entrez/eutils/efetch.fcgi''"

definition HEADERS :: "(string \<times> string) list" where
  "HEADERS = [(''User-Agent'', ''PubMedPaperFetcher/1.0'')]"

text \<open>\<^verbatim>\<open>response.raise_for_status()\<close>: a status from 400 to 599 raises \<^verbatim>\<open>HTTPError\<close>.\<close>

definition raise_for_status :: "response \<Rightarrow> py_error + unit" where
  "raise_for_status r =
     (if 400 \<le> status_code r \<and> status_code r < 600 then Inl (HTTPError (status_code r))
      else Inr ())"

text \<open>\<^verbatim>\<open>d.get(k, dflt)\<close>\<close>

definition dict_get :: "('k \<rightharpoonup> 'v) \<Rightarrow> 'k \<Rightarrow> 'v \<Rightarrow> 'v" where
  "dict_get d k dflt = (case d k of None \<Rightarrow> dflt | Some v \<Rightarrow> v)"

text \<open>
  \<^verbatim>\<open>
  def fetch_paper_ids(query: str, max_results: int = 10) -> List[str]:
      params = {"db": "pubmed", "term": query, "retmode": "json", "retmax": max_results}
      response = requests.get(PUBMED_API_URL, params=params, headers=HEADERS)
      response.raise_for_status()
      data = response.json()
      return data.get("esearchresult", {}).get("idlist", [])
  \<close>
\<close>

definition fetch_paper_ids ::
  "'s env \<Rightarrow> string \<Rightarrow> int \<Rightarrow> 's \<Rightarrow> (py_error + string list) \<times> 's" where
  "fetch_paper_ids env query max_results s =
     (let params = [(''db'', PStr ''pubmed''), (''term'', PStr query),
                    (''retmode'', PStr ''json''), (''retmax'', PInt max_results)]
      in case http_get env s PUBMED_API_URL params HEADERS of
           (Inl e, s') \<Rightarrow> (Inl e, s')
         | (Inr response, s') \<Rightarrow>
             (case raise_for_status response of
                Inl e \<Rightarrow> (Inl e, s')
              | Inr _ \<Rightarrow>
                  (case resp_json response of
                     None \<Rightarrow> (Inl JSONDecodeError, s')
                   | Some data \<Rightarrow>
                       (Inr (dict_get (dict_get data ''esearchresult'' Map.empty) ''idlist'' []),
                        s'))))"

text \<open>
  The dictionary \<^verbatim>\<open>fetch_paper_details\<close> returns, with its six keys in the order the
  source writes them: \<^verbatim>\<open>"PubmedID"\<close>, \<^verbatim>\<open>"Title"\<close>, \<^verbatim>\<open>"Publication Date"\<close>,
  \<^verbatim>\<open>"Non-academic Author(s)"\<close>, \<^verbatim>\<open>"Company Affiliation(s)"\<close>,
  \<^verbatim>\<open>"Corresponding Author Email"\<close>.
\<close>

record paper =
  PubmedID :: string
  Title :: string
  Publication_Date :: string
  Non_academic_Authors :: string
  Company_Affiliations :: string
  Corresponding_Author_Email :: string

text \<open>
  Lines 54 to 75 of \<^verbatim>\<open>fetch_paper_details\<close>, what it does with the text of the response:
  \<^verbatim>\<open>
      title = re.search(r"<ArticleTitle>(.*?)</ArticleTitle>", text)
      publication_date = clean_publication_date(text)
      authors = re.findall(r"<Author>(.*?)</Author>", text)
      affiliations = re.findall(r"<Affiliation>(.*?)</Affiliation>", text)
      non_academic_authors, companies = [], set()
      for i, aff in enumerate(affiliations): ...
      email_match = re.search(r"([a-zA-Z0-9._%+-]+@[a-zA-Z0-9.-]+\.[a-zA-Z]{2,})", text)
      corresponding_email = email_match.group(0) if email_match else "Not found"
      return {
          "PubmedID": paper_id,
          "Title": title.group(1) if title else "N/A",
          "Publication Date": publication_date,
          "Non-academic Author(s)": ", ".join(non_academic_authors) if non_academic_authors else "None",
          "Company Affiliation(s)": ", ".join(companies) if companies else "None",
          "Corresponding Author Email": corresponding_email
      }
  \<close>
\<close>

definition extract_authors :: "string \<Rightarrow> string list" where
  "extract_authors text = re_findall author_re text"

definition extract_affiliations :: "string \<Rightarrow> string list" where
  "extract_affiliations text = re_findall affiliation_re text"

definition extract_details :: "(string set \<Rightarrow> string list) \<Rightarrow> string \<Rightarrow> string \<Rightarrow> py_error + paper" where
  "extract_details iter paper_id text =
     (let title = re_search title_re text;
          publication_date = clean_publication_date text;
          authors = extract_authors text;
          affiliations = extract_affiliations text
      in case classify authors affiliations of
           Inl e \<Rightarrow> Inl e
         | Inr (non_academic_authors, companies) \<Rightarrow>
             (let email_match = re_search email_re text;
                  corresponding_email =
                    (case email_match of Some m \<Rightarrow> group0 m | None \<Rightarrow> ''Not found'')
              in Inr \<lparr>PubmedID = paper_id,
                      Title = (case title of Some m \<Rightarrow> group1 m | None \<Rightarrow> ''N/A''),
                      Publication_Date = publication_date,
                      Non_academic_Authors =
                        (if non_academic_authors \<noteq> [] then join '', '' non_academic_authors
                         else ''None''),
                      Company_Affiliations =
                        (if companies \<noteq> {} then join '', '' (iter companies) else ''None''),
                      Corresponding_Author_Email = corresponding_email\<rparr>))"

text \<open>
  \<^verbatim>\<open>
  def fetch_paper_details(paper_id: str) -> Dict[str, Optional[str]]:
      params = {"db": "pubmed", "id": paper_id, "retmode": "xml"}
      response = requests.get(PUBMED_FETCH_URL, params=params, headers=HEADERS)
      response.raise_for_status()
      text = response.text
      ...
  \<close>
\<close>

definition fetch_paper_details :: "'s env \<Rightarrow> string \<Rightarrow> 's \<Rightarrow> (py_error + paper) \<times> 's" where
  "fetch_paper_details env paper_id s =
     (let params = [(''db'', PStr ''pubmed''), (''id'', PStr paper_id), (''retmode'', PStr ''xml'')]
      in case http_get env s PUBMED_FETCH_URL params HEADERS of
           (Inl e, s') \<Rightarrow> (Inl e, s')
         | (Inr response, s') \<Rightarrow>
             (case raise_for_status response of
                Inl e \<Rightarrow> (Inl e, s')
              | Inr _ \<Rightarrow> (extract_details (set_iter env) paper_id (resp_text response), s')))"

text \<open>
  \<^verbatim>\<open>
  def get_papers(query: str, max_results: int = 10) -> List[Dict[str, str]]:
      paper_ids = fetch_paper_ids(query, max_results)
      papers = [fetch_paper_details(paper_id) for paper_id in paper_ids]
      return papers
  \<close>
  The comprehension calls \<^verbatim>\<open>fetch_paper_details\<close> on the identifiers in order, and the first
  exception ends it.
\<close>

fun fetch_all :: "'s env \<Rightarrow> string list \<Rightarrow> 's \<Rightarrow> (py_error + paper list) \<times> 's" where
  "fetch_all env [] s = (Inr [], s)"
| "fetch_all env (paper_id # paper_ids) s =
     (case fetch_paper_details env paper_id s of
        (Inl e, s') \<Rightarrow> (Inl e, s')
      | (Inr p, s') \<Rightarrow>
          (case fetch_all env paper_ids s' of
             (Inl e, s'') \<Rightarrow> (Inl e, s'')
           | (Inr ps, s'') \<Rightarrow> (Inr (p # ps), s'')))"

definition get_papers :: "'s env \<Rightarrow> string \<Rightarrow> int \<Rightarrow> 's \<Rightarrow> (py_error + paper list) \<times> 's" where
  "get_papers env query max_results s =
     (case fetch_paper_ids env query max_results s of
        (Inl e, s') \<Rightarrow> (Inl e, s')
      | (Inr paper_ids, s') \<Rightarrow> fetch_all env paper_ids s')"

section \<open>The sink\<close>

subsection \<open>Writing the delimited file\<close>

abbreviation (input) DQ :: char where "DQ \<equiv> CHR 0x22"
abbreviation (input) CR :: char where "CR \<equiv> CHR 0x0D"
abbreviation (input) LF :: char where "LF \<equiv> CHR 0x0A"
abbreviation (input) COMMA :: char where "COMMA \<equiv> CHR 0x2C"

text \<open>
  \<^verbatim>\<open>csv.DictWriter\<close> writes with the dialect \<^verbatim>\<open>excel\<close>: the delimiter is the comma, the quote
  character the double quote, the line terminator CR LF, and a field is quoted only when
  it has to be (\<^verbatim>\<open>QUOTE_MINIMAL\<close>): when it holds the delimiter, the quote character or a
  character of the line terminator.  Inside a quoted field the quote character is
  doubled.
\<close>

definition needs_quote :: "string \<Rightarrow> bool" where
  "needs_quote field = list_ex (\<lambda>c. c = COMMA \<or> c = DQ \<or> c = CR \<or> c = LF) field"

definition quote_field :: "string \<Rightarrow> string" where
  "quote_field field =
     (if needs_quote field
      then [DQ] @ concat (map (\<lambda>c. if c = DQ then [DQ, DQ] else [c]) field) @ [DQ]
      else field)"

text \<open>\<^verbatim>\<open>writer.writerow(row)\<close>; a row of one empty field is written as two quote
  characters.\<close>

definition csv_writerow :: "string list \<Rightarrow> string" where
  "csv_writerow flds =
     (if flds = [[]] then [DQ, DQ] else join [COMMA] (map quote_field flds)) @ [CR, LF]"

text \<open>\<^verbatim>\<open>papers[0].keys()\<close>: the keys of a dictionary built by \<^verbatim>\<open>fetch_paper_details\<close>, in
  the order of insertion.\<close>

definition fieldnames :: "string list" where
  "fieldnames = [''PubmedID'', ''Title'', ''Publication Date'', ''Non-academic Author(s)'',
                 ''Company Affiliation(s)'', ''Corresponding Author Email'']"

text \<open>The values of a paper under these keys.\<close>

definition row_of :: "paper \<Rightarrow> string list" where
  "row_of p = [PubmedID p, Title p, Publication_Date p, Non_academic_Authors p,
               Company_Affiliations p, Corresponding_Author_Email p]"

text \<open>
  \<^verbatim>\<open>
  def save_to_csv(papers: List[Dict[str, str]], filename: str):
      with open(filename, "w", newline="", encoding="utf-8") as file:
          writer = csv.DictWriter(file, fieldnames=papers[0].keys())
          writer.writeheader()
          writer.writerows(papers)
  \<close>
  The file system is a map from file names to contents.  \<^verbatim>\<open>open(filename, "w")\<close> raises
  \<^verbatim>\<open>OSError\<close> or leaves the file empty; \<^verbatim>\<open>papers[0]\<close> comes after it.
\<close>

definition save_to_csv ::
  "'s env \<Rightarrow> paper list \<Rightarrow> string \<Rightarrow> (string \<rightharpoonup> string) \<Rightarrow>
     (py_error + unit) \<times> (string \<rightharpoonup> string)" where
  "save_to_csv env papers filename fs =
     (if \<not> can_open env filename then (Inl OSError, fs)
      else
        (case getitem papers 0 of
           Inl e \<Rightarrow> (Inl e, fs(filename \<mapsto> []))
         | Inr first \<Rightarrow>
             (Inr (),
              fs(filename \<mapsto>
                   csv_writerow fieldnames @ concat (map (\<lambda>p. csv_writerow (row_of p)) papers)))))"

subsection \<open>The command line\<close>

record args =
  query :: string
  debug :: bool
  outfile :: "string option"

text \<open>What a \<^verbatim>\<open>print\<close> call wrote: a line of text, or the \<^verbatim>\<open>repr\<close> of a paper.\<close>

datatype out = Line string | Repr paper

record 's world =
  net :: 's
  files :: "string \<rightharpoonup> string"
  stdout :: "out list"

definition py_print :: "out \<Rightarrow> 's world \<Rightarrow> 's world" where
  "py_print x w = w\<lparr>stdout := stdout w @ [x]\<rparr>"

text \<open>
  \<^verbatim>\<open>
  def main():
      ...
      args = parser.parse_args()
      if args.debug:
          print(f"Fetching papers for query: {args.query}")
      papers = pubmed_fetcher.get_papers(args.query, max_results=10)
      if args.file:
          pubmed_fetcher.save_to_csv(papers, args.file)
          print(f"Results saved to {args.file}")
      else:
          for paper in papers:
              print(paper)
  \<close>
  \<open>outfile\<close> is \<^verbatim>\<open>args.file\<close>: \<^verbatim>\<open>None\<close> or a string, and the empty string is as false as
  \<^verbatim>\<open>None\<close>.
\<close>

definition main :: "'s env \<Rightarrow> args \<Rightarrow> 's world \<Rightarrow> (py_error + unit) \<times> 's world" where
  "main env args w0 =
     (let w1 = (if debug args then py_print (Line (''Fetching papers for query: '' @ query args)) w0
                else w0)
      in case get_papers env (query args) 10 (net w1) of
           (Inl e, s) \<Rightarrow> (Inl e, w1\<lparr>net := s\<rparr>)
         | (Inr papers, s) \<Rightarrow>
             (let w2 = w1\<lparr>net := s\<rparr>
              in if outfile args \<noteq> None \<and> outfile args \<noteq> Some []
                 then (case save_to_csv env papers (the (outfile args)) (files w2) of
                         (Inl e, fs) \<Rightarrow> (Inl e, w2\<lparr>files := fs\<rparr>)
                       | (Inr _, fs) \<Rightarrow>
                           (Inr (),
                            py_print (Line (''Results saved to '' @ the (outfile args)))
                              (w2\<lparr>files := fs\<rparr>)))
                 else (Inr (), foldl (\<lambda>w paper. py_print (Repr paper) w) w2 papers)))"

subsection \<open>Reading the file back\<close>

text \<open>
  Modelled from the spec: the repository writes the delimited file and has no code that
  reads it back; the round trip of the spec reads it with the reader that belongs to the
  writer, \<^verbatim>\<open>csv.reader\<close> with the same dialect on a file opened with \<^verbatim>\<open>newline=""\<close>.
  The reader is a machine with five states over the characters.  Outside a quoted field a
  line ends at CR LF, CR or LF and ends the row; inside one every character but the quote
  character belongs to the field; the end of the input ends the row that is open.
\<close>

datatype rstate = START_RECORD | START_FIELD | IN_FIELD | IN_QUOTED_FIELD | QUOTE_IN_QUOTED_FIELD

text \<open>The input after the line end that begins with \<open>c\<close>: a line feed right after a
  carriage return belongs to the same line end.\<close>

definition after_eol :: "char \<Rightarrow> string \<Rightarrow> string" where
  "after_eol c cs =
     (if c = CR then (case cs of [] \<Rightarrow> [] | c' # cs' \<Rightarrow> if c' = LF then cs' else cs) else cs)"

text \<open>
  Modelled from the spec: the machine of the reader (the repository has none).
  \<open>csv_parse st field flds rows s\<close> reads the input \<open>s\<close> in the state \<open>st\<close>, with the
  characters of the open field, the fields of the open row and the rows read so far.
\<close>

function csv_parse ::
  "rstate \<Rightarrow> string \<Rightarrow> string list \<Rightarrow> string list list \<Rightarrow> string \<Rightarrow> string list list" where
  "csv_parse st field flds rows [] =
     (if st = START_RECORD then rows else rows @ [flds @ [field]])"
| "csv_parse START_RECORD field flds rows (c # cs) =
     (if c = CR \<or> c = LF then csv_parse START_RECORD [] [] (rows @ [[]]) (after_eol c cs)
      else csv_parse START_FIELD [] [] rows (c # cs))"
| "csv_parse START_FIELD field flds rows (c # cs) =
     (if c = CR \<or> c = LF
      then csv_parse START_RECORD [] [] (rows @ [flds @ [[]]]) (after_eol c cs)
      else if c = DQ then csv_parse IN_QUOTED_FIELD [] flds rows cs
      else if c = COMMA then csv_parse START_FIELD [] (flds @ [[]]) rows cs
      else csv_parse IN_FIELD [c] flds rows cs)"
| "csv_parse IN_FIELD field flds rows (c # cs) =
     (if c = CR \<or> c = LF
      then csv_parse START_RECORD [] [] (rows @ [flds @ [field]]) (after_eol c cs)
      else if c = COMMA then csv_parse START_FIELD [] (flds @ [field]) rows cs
      else csv_parse IN_FIELD (field @ [c]) flds rows cs)"
| "csv_parse IN_QUOTED_FIELD field flds rows (c # cs) =
     (if c = DQ then csv_parse QUOTE_IN_QUOTED_FIELD field flds rows cs
      else csv_parse IN_QUOTED_FIELD (field @ [c]) flds rows cs)"
| "csv_parse QUOTE_IN_QUOTED_FIELD field flds rows (c # cs) =
     (if c = DQ then csv_parse IN_QUOTED_FIELD (field @ [DQ]) flds rows cs
      else if c = COMMA then csv_parse START_FIELD [] (flds @ [field]) rows cs
      else if c = CR \<or> c = LF
      then csv_parse START_RECORD [] [] (rows @ [flds @ [field]]) (after_eol c cs)
      else csv_parse IN_FIELD (field @ [c]) flds rows cs)"
  by pat_completeness auto

lemma length_after_eol: "length (after_eol c cs) \<le> length cs"
  by (simp add: after_eol_def split: list.split)

lemma after_eol_measure:
  "2 * length (after_eol c cs) < Suc (2 * length cs)"
  "2 * length (after_eol c cs) < Suc (Suc (2 * length cs))"
  using length_after_eol [of c cs] by simp_all

termination csv_parse
  by (relation "measure (\<lambda>(st, field, flds, rows, s).
                  2 * length s + (if st = START_RECORD then 1 else 0))")
    (simp_all add: after_eol_measure)

text \<open>Modelled from the spec: reading a whole file back (the repository has no reader),
  from the start of a record with nothing read.\<close>

definition csv_read :: "string \<Rightarrow> string list list" where
  "csv_read s = csv_parse START_RECORD [] [] [] s"

text \<open>The characters that make the writer quote a field.\<close>

definition special :: "char \<Rightarrow> bool" where
  "special c \<longleftrightarrow> c = COMMA \<or> c = DQ \<or> c = CR \<or> c = LF"

section \<open>A stub of the environment\<close>

text \<open>
  For the examples: a network whose search answers with the identifier list \<open>ids\<close> and
  whose detail call answers every identifier with the text \<open>payload\<close>, both with status
  200; sets are iterated in sorted order; every file can be opened.
\<close>

definition stub_env :: "string list \<Rightarrow> string \<Rightarrow> unit env" where
  "stub_env ids payload =
     \<lparr>http_get = (\<lambda>s url params headers.
        (Inr (if url = PUBMED_API_URL
              then \<lparr>status_code = 200, resp_text = [],
                    resp_json = Some [''esearchresult'' \<mapsto> [''idlist'' \<mapsto> ids]]\<rparr>
              else \<lparr>status_code = 200, resp_text = payload, resp_json = None\<rparr>), s)),
      set_iter = sorted_list_of_set,
      can_open = (\<lambda>filename. True)\<rparr>"

section \<open>The words of the specification\<close>

text \<open>
  The specification's reading of the classifier: an affiliation is flagged when it
  contains, as a literal piece of its text, one of the industry indicators.
\<close>

definition contains_indicator :: "string \<Rightarrow> bool" where
  "contains_indicator aff \<longleftrightarrow>
     (\<exists>k \<in> {''Inc'', ''Ltd'', ''Pharmaceutical'', ''Biotech'', ''Corp'', ''LLC''}.
        \<exists>u v. aff = u @ k @ v)"

text \<open>
  The specification's composition of the date from the three components, each present
  or missing: year-month-day when the day is present, else year-month when the month is
  present, else the year alone, \<open>Unknown\<close> standing for a missing component it uses.
\<close>

definition compose_date :: "string option \<Rightarrow> string option \<Rightarrow> string option \<Rightarrow> string" where
  "compose_date y m d =
     (let year = (case y of Some v \<Rightarrow> v | None \<Rightarrow> ''Unknown'');
          month = (case m of Some v \<Rightarrow> v | None \<Rightarrow> ''Unknown'')
      in case d of
           Some day \<Rightarrow> year @ ''-'' @ month @ ''-'' @ day
         | None \<Rightarrow> (case m of Some _ \<Rightarrow> year @ ''-'' @ month | None \<Rightarrow> year))"

text \<open>
  The detail calls of an environment all succeed: in every state of the network and for
  every identifier the call answers with a response whose status is not an error.
\<close>

definition details_succeed :: "'s env \<Rightarrow> bool" where
  "details_succeed env \<longleftrightarrow>
     (\<forall>t paper_id. \<exists>r t'.
        http_get env t PUBMED_FETCH_URL
          [(''db'', PStr ''pubmed''), (''id'', PStr paper_id), (''retmode'', PStr ''xml'')] HEADERS
          = (Inr r, t')
        \<and> raise_for_status r = Inr ())"

section \<open>Properties of the string operations\<close>

lemma starts_with_iff: "starts_with p s \<longleftrightarrow> (\<exists>r. s = p @ r)"
  by (induction p s rule: starts_with.induct) auto

lemma str_contains_iff: "str_contains sub s \<longleftrightarrow> (\<exists>a b. s = a @ sub @ b)"
proof (induction s)
  case Nil
  then show ?case by (simp add: starts_with_iff)
next
  case (Cons c cs)
  show ?case
  proof
    assume "str_contains sub (c # cs)"
    then consider "starts_with sub (c # cs)" | "str_contains sub cs" by auto
    then show "\<exists>a b. c # cs = a @ sub @ b"
    proof cases
      case 1
      then obtain r where "c # cs = sub @ r" by (auto simp: starts_with_iff)
      then have "c # cs = [] @ sub @ r" by simp
      then show ?thesis by blast
    next
      case 2
      with Cons obtain a b where "cs = a @ sub @ b" by auto
      then have "c # cs = (c # a) @ sub @ b" by simp
      then show ?thesis by blast
    qed
  next
    assume "\<exists>a b. c # cs = a @ sub @ b"
    then obtain a b where ab: "c # cs = a @ sub @ b" by blast
    show "str_contains sub (c # cs)"
    proof (cases a)
      case Nil
      with ab have "starts_with sub (c # cs)"
        unfolding starts_with_iff by auto
      then show ?thesis by simp
    next
      case (Cons a0 as)
      with ab have "cs = as @ sub @ b" by simp
      with Cons.IH show ?thesis by auto
    qed
  qed
qed

section \<open>Properties of the classifier\<close>

lemma is_non_academic_iff: "is_non_academic aff \<longleftrightarrow> contains_indicator aff"
  by (simp add: is_non_academic_def contains_indicator_def NON_ACADEMIC_KEYWORDS_def
      str_contains_iff)

text \<open>The loop, from any index and any accumulators: it never raises, and it appends one
  author per flagged affiliation and adds the flagged affiliations.\<close>

lemma classify_loop_eq:
  "classify_loop authors i affs (naa, cs) =
     Inr (naa @ map (\<lambda>(j, aff). if j < length authors then authors ! j else ''Unknown'')
                  (filter (\<lambda>(j, aff). is_non_academic aff) (enumerate i affs)),
          cs \<union> set (filter is_non_academic affs))"
proof (induction affs arbitrary: i naa cs)
  case Nil
  show ?case by simp
next
  case (Cons aff affs)
  show ?case
    by (auto simp: Cons.IH getitem_def)
qed

text \<open>
  C1.  For all lists of authors and affiliations the classifier flags exactly the
  affiliations that contain an industry indicator: \<open>non_academic_authors\<close> is, in order,
  the author at the index of each such affiliation (\<open>Unknown\<close> when there is no author
  at that index), and \<open>companies\<close> is the set of these affiliations; an affiliation with
  no indicator adds to neither.
\<close>

theorem classify_flags_indicator_affiliations:
  "classify authors affiliations =
     Inr (map (\<lambda>(i, aff). if i < length authors then authors ! i else ''Unknown'')
            (filter (\<lambda>(i, aff). contains_indicator aff) (enumerate 0 affiliations)),
          set (filter contains_indicator affiliations))"
  by (simp add: classify_def classify_loop_eq is_non_academic_iff)

theorem classify_flags_indicator_affiliations_witness:
  "classify [''Ann'', ''Bob'', ''Carol''] [''Stanford University'', ''MIT'', ''Moderna Inc'']
     = Inr ([''Carol''], {''Moderna Inc''})
   \<and> classify [''Ann''] [''Stanford University''] = Inr ([], {})
   \<and> classify [] [''Acme Corp''] = Inr ([''Unknown''], {''Acme Corp''})"
  using
    classify_flags_indicator_affiliations
      [of "[''Ann'', ''Bob'', ''Carol'']" "[''Stanford University'', ''MIT'', ''Moderna Inc'']"]
    classify_flags_indicator_affiliations [of "[''Ann'']" "[''Stanford University'']"]
    classify_flags_indicator_affiliations [of "[]" "[''Acme Corp'']"]
  by (simp add: is_non_academic_iff [symmetric] is_non_academic_def NON_ACADEMIC_KEYWORDS_def
      enumerate_eq_zip)


section \<open>Properties of the pattern matcher\<close>

lemma first_some_Some:
  "first_some f xs = Some y \<Longrightarrow> \<exists>x \<in> set xs. f x = Some y"
  by (induction xs) (auto split: option.splits)

lemma first_some_None:
  "first_some f xs = None \<longleftrightarrow> (\<forall>x \<in> set xs. f x = None)"
  by (induction xs) (auto split: option.splits)

lemma counts_bounds:
  assumes "k \<in> set (counts (Rep cls lo hi q) s)"
  shows "lo \<le> k" and "k \<le> length (takeWhile cls s)" and "\<And>h. hi = Some h \<Longrightarrow> k \<le> h"
  using assms by (auto simp: Let_def split: quant.splits option.splits)

lemma takeWhile_take:
  "k \<le> length (takeWhile P s) \<Longrightarrow> (\<forall>c \<in> set (take k s). P c) \<and> length (take k s) = k"
proof -
  assume k: "k \<le> length (takeWhile P s)"
  have "take k s = take k (takeWhile P s)"
    by (metis k append_eq_conv_conj takeWhile_dropWhile_id take_append take_all_iff
        le_iff_add diff_is_0_eq' take0 append_Nil2 take_take min.absorb1)
  then have "set (take k s) \<subseteq> set (takeWhile P s)"
    by (metis set_take_subset)
  moreover have "length (takeWhile P s) \<le> length s" by (rule length_takeWhile_le)
  ultimately show ?thesis using k by (auto dest: set_takeWhileD)
qed

lemma match_here_length: "match_here ps s = Some m \<Longrightarrow> length m = length ps"
proof (induction ps s arbitrary: m rule: match_here.induct)
  case (1 s)
  then show ?case by simp
next
  case (2 l ps s)
  then show ?case by (auto split: if_splits)
next
  case (3 r ps s)
  from "3.prems" obtain k where "k \<in> set (counts r s)"
    and "map_option ((#) (take k s)) (match_here ps (drop k s)) = Some m"
    by (auto dest: first_some_Some)
  then show ?case using "3.IH" by auto
next
  case (4 a b ps s)
  from "4.prems" obtain k where "k \<in> set (counts a s @ counts b s)"
    and "map_option ((#) (take k s)) (match_here ps (drop k s)) = Some m"
    by (auto dest!: first_some_Some)
  then show ?case using "4.IH" by auto
qed

lemma match_here_prefix: "match_here ps s = Some m \<Longrightarrow> \<exists>r. s = concat m @ r"
proof (induction ps s arbitrary: m rule: match_here.induct)
  case (1 s)
  then show ?case by simp
next
  case (2 l ps s)
  from "2.prems" obtain m' where sw: "starts_with l s"
    and m': "match_here ps (drop (length l) s) = Some m'" and m: "m = l # m'"
    by (auto split: if_splits)
  from sw obtain r where s: "s = l @ r" by (auto simp: starts_with_iff)
  from "2.IH" [OF sw m'] obtain r' where "drop (length l) s = concat m' @ r'" by blast
  with s m show ?case by auto
next
  case (3 r ps s)
  from "3.prems" obtain k m' where k: "k \<in> set (counts r s)"
    and m': "match_here ps (drop k s) = Some m'" and m: "m = take k s # m'"
    by (auto dest!: first_some_Some)
  from "3.IH" [OF m'] obtain r' where "drop k s = concat m' @ r'" by blast
  then have "s = take k s @ concat m' @ r'" by (metis append_take_drop_id)
  with m show ?case by auto
next
  case (4 a b ps s)
  from "4.prems" obtain k m' where k: "k \<in> set (counts a s @ counts b s)"
    and m': "match_here ps (drop k s) = Some m'" and m: "m = take k s # m'"
    by (auto dest!: first_some_Some)
  from "4.IH" [OF m'] obtain r' where "drop k s = concat m' @ r'" by blast
  then have "s = take k s @ concat m' @ r'" by (metis append_take_drop_id)
  with m show ?case by auto
qed

lemma re_search_Some:
  "re_search p s = Some m \<Longrightarrow> \<exists>a b. s = a @ b \<and> match_here p b = Some m"
proof (induction s)
  case Nil
  then show ?case by simp
next
  case (Cons c cs)
  show ?case
  proof (cases "match_here p (c # cs)")
    case None
    with Cons obtain a b where "cs = a @ b" "match_here p b = Some m" by auto
    then have "c # cs = (c # a) @ b \<and> match_here p b = Some m" by simp
    then show ?thesis by blast
  next
    case (Some m')
    with Cons.prems have "c # cs = [] @ (c # cs) \<and> match_here p (c # cs) = Some m" by simp
    then show ?thesis by blast
  qed
qed

lemma match_here_Lit_contains:
  "match_here (Lit l # ps) b = Some m \<Longrightarrow> str_contains l (a @ b)"
  by (auto simp: str_contains_iff starts_with_iff split: if_splits)

lemma re_search_Lit_None:
  "\<not> str_contains l s \<Longrightarrow> re_search (Lit l # ps) s = None"
proof (rule ccontr)
  assume n: "\<not> str_contains l s" and "re_search (Lit l # ps) s \<noteq> None"
  then obtain m where "re_search (Lit l # ps) s = Some m" by auto
  then obtain a b where "s = a @ b" "match_here (Lit l # ps) b = Some m"
    by (auto dest: re_search_Some)
  with n show False using match_here_Lit_contains by blast
qed

lemma findall_from_Lit_Nil:
  "\<not> str_contains l s \<Longrightarrow> findall_from (Lit l # ps) n s = []"
proof (induction "Lit l # ps" n s rule: findall_from.induct)
  case (1 skip)
  then show ?case by simp
next
  case (2 n c cs)
  then show ?case by auto
next
  case (3 c cs)
  from "3.prems" have "\<not> starts_with l (c # cs)" and "\<not> str_contains l cs" by auto
  then show ?case using "3.hyps" by simp
qed

section \<open>Properties of the publication date\<close>

text \<open>A match of a pattern \<open>literal, repetition, literal\<close>.\<close>

lemma match_here_tag:
  assumes "match_here [Lit a, One (Rep cls lo hi q), Lit b] s = Some m"
  shows "\<exists>g r. m = [a, g, b] \<and> s = a @ g @ b @ r \<and> lo \<le> length g \<and> (\<forall>c \<in> set g. cls c)"
proof -
  from assms obtain m1 where sa: "starts_with a s"
    and m1: "match_here [One (Rep cls lo hi q), Lit b] (drop (length a) s) = Some m1"
    and m: "m = a # m1"
    by (auto split: if_splits)
  define t where "t = drop (length a) s"
  from sa have s: "s = a @ t" by (auto simp: starts_with_iff t_def)
  from m1 obtain k m2 where k: "k \<in> set (counts (Rep cls lo hi q) t)"
    and m2: "match_here [Lit b] (drop k t) = Some m2" and m1': "m1 = take k t # m2"
    unfolding t_def [symmetric] by (auto simp del: counts.simps dest!: first_some_Some)
  from m2 obtain r where sb: "drop k t = b @ r" and m2': "m2 = [b]"
    by (auto simp: starts_with_iff split: if_splits)
  have kl: "lo \<le> k" and kt: "k \<le> length (takeWhile cls t)"
    using counts_bounds [OF k] by auto
  from takeWhile_take [OF kt] have g: "\<forall>c \<in> set (take k t). cls c" "length (take k t) = k"
    by auto
  have "t = take k t @ b @ r" using sb by (metis append_take_drop_id)
  with s have "s = a @ take k t @ b @ r" by simp
  with m m1' m2' kl g show ?thesis by auto
qed

lemma match_here_tag2:
  assumes "match_here [Lit a, Either (Rep cls lo hi q) (Rep cls' lo' hi' q'), Lit b] s = Some m"
  shows "\<exists>g r. m = [a, g, b] \<and> s = a @ g @ b @ r \<and>
           (lo \<le> length g \<and> (\<forall>c \<in> set g. cls c) \<or> lo' \<le> length g \<and> (\<forall>c \<in> set g. cls' c))"
proof -
  from assms obtain m1 where sa: "starts_with a s"
    and m1: "match_here [Either (Rep cls lo hi q) (Rep cls' lo' hi' q'), Lit b] (drop (length a) s)
               = Some m1"
    and m: "m = a # m1"
    by (auto split: if_splits)
  define t where "t = drop (length a) s"
  from sa have s: "s = a @ t" by (auto simp: starts_with_iff t_def)
  from m1 obtain k m2 where
    k: "k \<in> set (counts (Rep cls lo hi q) t) \<or> k \<in> set (counts (Rep cls' lo' hi' q') t)"
    and m2: "match_here [Lit b] (drop k t) = Some m2" and m1': "m1 = take k t # m2"
    unfolding t_def [symmetric] by (auto simp del: counts.simps dest!: first_some_Some)
  from m2 obtain r where sb: "drop k t = b @ r" and m2': "m2 = [b]"
    by (auto simp: starts_with_iff split: if_splits)
  have "t = take k t @ b @ r" using sb by (metis append_take_drop_id)
  with s have s': "s = a @ take k t @ b @ r" by simp
  from k show ?thesis
  proof
    assume k1: "k \<in> set (counts (Rep cls lo hi q) t)"
    have kl: "lo \<le> k" and kt: "k \<le> length (takeWhile cls t)"
      using counts_bounds [OF k1] by auto
    from takeWhile_take [OF kt] have "\<forall>c \<in> set (take k t). cls c" "length (take k t) = k"
      by auto
    with m m1' m2' kl s' show ?thesis by auto
  next
    assume k2: "k \<in> set (counts (Rep cls' lo' hi' q') t)"
    have kl: "lo' \<le> k" and kt: "k \<le> length (takeWhile cls' t)"
      using counts_bounds [OF k2] by auto
    from takeWhile_take [OF kt] have "\<forall>c \<in> set (take k t). cls' c" "length (take k t) = k"
      by auto
    with m m1' m2' kl s' show ?thesis by auto
  qed
qed

text \<open>A day that is found is not empty, so the test \<^verbatim>\<open>if day:\<close> is the test that a day
  was found.\<close>

lemma day_group_nonempty:
  assumes "re_search day_re text = Some m"
  shows "group1 m \<noteq> []"
proof -
  from re_search_Some [OF assms] obtain a b where "match_here day_re b = Some m" by blast
  from match_here_tag [OF this [unfolded day_re_def]]
  obtain g where "m = [''<Day>'', g, ''</Day>'']" "1 \<le> length g" by blast
  then show ?thesis by (auto simp: group1_def)
qed

text \<open>Unless the month found is the word \<open>Unknown\<close>, the code composes the date as the
  specification says.\<close>

lemma clean_publication_date_composes:
  assumes "map_option group1 (re_search month_re text) \<noteq> Some ''Unknown''"
  shows "clean_publication_date text =
           compose_date (map_option group1 (re_search year_re text))
             (map_option group1 (re_search month_re text))
             (map_option group1 (re_search day_re text))"
  using assms
  by (auto simp: clean_publication_date_def compose_date_def Let_def
      dest: day_group_nonempty split: option.splits)

text \<open>The three compositions the specification lists.\<close>

lemma clean_publication_date_examples:
  "clean_publication_date ''<Year>2021</Year><Month>Jan</Month><Day>15</Day>'' = ''2021-Jan-15''"
  "clean_publication_date ''<Year>2021</Year>'' = ''2021''"
  "clean_publication_date ''<Year>2021</Year><Month>03</Month>'' = ''2021-03''"
  by code_simp+

text \<open>
  C2.  The date is composed as year-month-day when a day is present, else year-month when
  a month is present, else the year alone.  The code tests the presence of the month by
  comparing its text with the sentinel \<open>Unknown\<close>, which the month pattern itself can
  match: on a payload whose month element holds the word \<open>Unknown\<close> the month is present
  and the code returns the year alone, where the composition of the specification is
  \<open>2021-Unknown\<close>.  On every other payload the code composes as the specification says
  (\<open>clean_publication_date_composes\<close>).
\<close>

theorem clean_publication_date_month_Unknown:
  "clean_publication_date ''<Year>2021</Year><Month>Unknown</Month>'' = ''2021''
   \<and> compose_date (map_option group1 (re_search year_re ''<Year>2021</Year><Month>Unknown</Month>''))
         (map_option group1 (re_search month_re ''<Year>2021</Year><Month>Unknown</Month>''))
         (map_option group1 (re_search day_re ''<Year>2021</Year><Month>Unknown</Month>''))
       = ''2021-Unknown''"
  by code_simp

section \<open>Authors and affiliations of unequal number\<close>

lemma length_filter_enumerate:
  "length (filter (\<lambda>(j, a). P a) (enumerate n xs)) = length (filter P xs)"
  by (induction xs arbitrary: n) auto

lemma filter_enumerate_nth:
  assumes "i < length xs" and "P (xs ! i)"
  shows "filter (\<lambda>(j, a). P a) (enumerate 0 xs) ! length (filter P (take i xs)) = (i, xs ! i)"
proof -
  have xs: "xs = take i xs @ xs ! i # drop (Suc i) xs"
    using assms(1) by (simp add: id_take_nth_drop)
  have len: "length (take i xs) = i" using assms(1) by simp
  have "enumerate 0 xs = enumerate 0 (take i xs @ xs ! i # drop (Suc i) xs)"
    using xs by simp
  also have "\<dots> = enumerate 0 (take i xs) @ (i, xs ! i) # enumerate (Suc i) (drop (Suc i) xs)"
    by (simp only: enumerate_append_eq enumerate_simps len add_0)
  finally have "filter (\<lambda>(j, a). P a) (enumerate 0 xs) =
      filter (\<lambda>(j, a). P a) (enumerate 0 (take i xs)) @
      (i, xs ! i) # filter (\<lambda>(j, a). P a) (enumerate (Suc i) (drop (Suc i) xs))"
    using assms(2) by simp
  then show ?thesis
    by (simp add: nth_append length_filter_enumerate)
qed

lemma classify_eq:
  "classify authors affiliations =
     Inr (map (\<lambda>(j, aff). if j < length authors then authors ! j else ''Unknown'')
            (filter (\<lambda>(j, aff). is_non_academic aff) (enumerate 0 affiliations)),
          set (filter is_non_academic affiliations))"
  by (simp add: classify_def classify_loop_eq)

text \<open>
  C3 (amended).  The pairing follows the affiliations, not the authors.  When there are
  more affiliations than authors, an affiliation at an index with no author is not
  ignored: if it contains an indicator it is added to \<open>companies\<close> and the placeholder
  \<open>Unknown\<close> stands for its author.  When there are more authors than affiliations, the
  classifier does not fail and the authors with no affiliation are ignored: the result is
  that of the authors cut to the number of affiliations, with no placeholder for them.
\<close>

theorem classify_unequal_lengths:
  "\<exists>naa cs. classify authors affiliations = Inr (naa, cs)
     \<and> classify (take (length affiliations) authors) affiliations = Inr (naa, cs)
     \<and> (\<forall>i. length authors \<le> i \<and> i < length affiliations \<and> contains_indicator (affiliations ! i)
            \<longrightarrow> affiliations ! i \<in> cs
                \<and> naa ! length (filter contains_indicator (take i affiliations)) = ''Unknown'')"
proof -
  let ?f = "\<lambda>(j, aff :: string). if j < length authors then authors ! j else ''Unknown''"
  let ?f' = "\<lambda>(j, aff :: string). if j < length (take (length affiliations) authors)
               then take (length affiliations) authors ! j else ''Unknown''"
  let ?es = "filter (\<lambda>(j, aff). is_non_academic aff) (enumerate 0 affiliations)"
  let ?cs = "set (filter is_non_academic affiliations)"
  have 1: "classify authors affiliations = Inr (map ?f ?es, ?cs)"
    by (rule classify_eq)
  have "map ?f' ?es = map ?f ?es"
    by (rule map_cong) (auto simp: in_set_enumerate_eq)
  then have 2: "classify (take (length affiliations) authors) affiliations = Inr (map ?f ?es, ?cs)"
    by (simp add: classify_eq)
  have 3: "affiliations ! i \<in> ?cs
         \<and> map ?f ?es ! length (filter contains_indicator (take i affiliations)) = ''Unknown''"
    if i: "length authors \<le> i" "i < length affiliations" "contains_indicator (affiliations ! i)"
    for i
  proof -
    have na: "is_non_academic (affiliations ! i)" using i(3) by (simp add: is_non_academic_iff)
    have eq: "contains_indicator = is_non_academic" by (auto simp: is_non_academic_iff)
    have nth: "?es ! length (filter is_non_academic (take i affiliations)) = (i, affiliations ! i)"
      using filter_enumerate_nth [of i affiliations is_non_academic, OF i(2) na] .
    have "length (filter is_non_academic (take i affiliations)) < length ?es"
    proof -
      have "affiliations = take i affiliations @ affiliations ! i # drop (Suc i) affiliations"
        using i(2) by (simp add: id_take_nth_drop)
      then have "filter is_non_academic affiliations =
          filter is_non_academic (take i affiliations) @
          affiliations ! i # filter is_non_academic (drop (Suc i) affiliations)"
        using na by (metis filter.simps(2) filter_append)
      then have "length (filter is_non_academic (take i affiliations))
                   < length (filter is_non_academic affiliations)"
        by (metis length_append length_Cons less_add_Suc1 add_Suc_right)
      then show ?thesis by (simp add: length_filter_enumerate)
    qed
    then have "map ?f ?es ! length (filter is_non_academic (take i affiliations)) =
               ?f (i, affiliations ! i)"
      using nth by (simp only: nth_map)
    with i na show ?thesis by (simp add: eq)
  qed
  from 1 2 3 show ?thesis by blast
qed

theorem classify_unequal_lengths_witness:
  "\<exists>naa cs. classify [''Ann''] [''MIT'', ''Acme Inc''] = Inr (naa, cs)
     \<and> [''MIT'', ''Acme Inc''] ! 1 \<in> cs
     \<and> naa ! length (filter contains_indicator (take 1 [''MIT'', ''Acme Inc''])) = ''Unknown''"
proof -
  have h: "length [''Ann''] \<le> 1 \<and> 1 < length [''MIT'', ''Acme Inc'']
           \<and> contains_indicator ([''MIT'', ''Acme Inc''] ! 1)"
    by (simp add: is_non_academic_iff [symmetric] is_non_academic_def NON_ACADEMIC_KEYWORDS_def)
  from classify_unequal_lengths [of "[''Ann'']" "[''MIT'', ''Acme Inc'']"] h
  show ?thesis by blast
qed

text \<open>The claim as stated fails: with one author and two affiliations the second
  affiliation changes the result, and with two authors and one affiliation nothing
  stands for the second author.\<close>

theorem classify_unequal_lengths_counterexample:
  "classify [''Ann''] [''MIT'', ''Acme Inc''] \<noteq> classify [''Ann''] (take 1 [''MIT'', ''Acme Inc''])
   \<and> classify [''Ann''] [''MIT'', ''Acme Inc''] = Inr ([''Unknown''], {''Acme Inc''})
   \<and> classify [''Ann'', ''Bob''] [''Acme Inc''] = Inr ([''Ann''], {''Acme Inc''})"
  by (simp add: classify_def is_non_academic_def NON_ACADEMIC_KEYWORDS_def getitem_def)

section \<open>Properties of the extraction of the fields\<close>

lemma classify_Inr:
  "\<exists>naa. classify authors affiliations = Inr (naa, set (filter contains_indicator affiliations))
         \<and> (naa = [] \<longleftrightarrow> filter contains_indicator affiliations = [])"
proof -
  have eq: "contains_indicator = is_non_academic" by (auto simp: is_non_academic_iff)
  have "length (filter (\<lambda>(j, aff). is_non_academic aff) (enumerate 0 affiliations))
          = length (filter is_non_academic affiliations)"
    by (rule length_filter_enumerate)
  then have "filter (\<lambda>(j, aff). is_non_academic aff) (enumerate 0 affiliations) = []
          \<longleftrightarrow> filter is_non_academic affiliations = []"
    by (metis length_0_conv)
  then show ?thesis
    unfolding eq by (simp add: classify_eq)
qed

text \<open>The extraction returns a record for every text.\<close>

lemma extract_details_Inr: "\<exists>p. extract_details iter paper_id text = Inr p"
proof -
  obtain naa cs where "classify (extract_authors text) (extract_affiliations text) = Inr (naa, cs)"
    using classify_Inr by blast
  then show ?thesis by (simp add: extract_details_def)
qed

lemma re_search_tag_contains:
  assumes "re_search [Lit a, One (Rep cls lo hi q), Lit b] s = Some m"
  shows "str_contains a s \<and> str_contains b s"
proof -
  from re_search_Some [OF assms] obtain u v where s: "s = u @ v"
    and m: "match_here [Lit a, One (Rep cls lo hi q), Lit b] v = Some m" by blast
  from match_here_tag [OF m] obtain g r where v: "v = a @ g @ b @ r" by blast
  have "s = u @ a @ (g @ b @ r)" "s = (u @ a @ g) @ b @ r" using s v by simp_all
  then show ?thesis unfolding str_contains_iff by blast
qed

lemma re_search_email_at:
  assumes "re_search email_re s = Some m"
  shows "CHR ''@'' \<in> set s"
proof -
  from re_search_Some [OF assms] obtain u v where s: "s = u @ v"
    and m: "match_here email_re v = Some m" by blast
  from m obtain k m' where
    "match_here [Lit ''@'', One (Rep email_domain 1 None Greedy), Lit ''.'',
                 One (Rep alpha 2 None Greedy)] (drop k v) = Some m'"
    unfolding email_re_def by (auto simp del: counts.simps dest!: first_some_Some)
  then have "starts_with ''@'' (drop k v)" by (auto split: if_splits)
  then obtain r where "drop k v = ''@'' @ r" by (auto simp: starts_with_iff)
  then have "CHR ''@'' \<in> set (drop k v)" by simp
  then have "CHR ''@'' \<in> set v" by (meson in_set_dropD)
  with s show ?thesis by simp
qed

text \<open>
  C5.  The extraction of the fields is total: for every payload text it returns a record
  and never raises.  A payload with no title tag has the title \<open>N/A\<close>; one with no
  address in it has the email \<open>Not found\<close>; a missing year is written \<open>Unknown\<close>, and
  the date of a payload with no year, month or day is \<open>Unknown\<close>; with no author tag or
  no affiliation tag the list extracted is empty.  \<^verbatim>\<open>fetch_paper_details\<close> raises only when
  there is no payload: whenever the call to the network answers with a status that is
  not an error, it returns a record.
\<close>

theorem extract_details_total:
  "\<exists>p. extract_details iter paper_id text = Inr p
     \<and> PubmedID p = paper_id
     \<and> (\<not> str_contains ''<ArticleTitle>'' text \<or> \<not> str_contains ''</ArticleTitle>'' text
          \<longrightarrow> Title p = ''N/A'')
     \<and> (CHR ''@'' \<notin> set text \<longrightarrow> Corresponding_Author_Email p = ''Not found'')
     \<and> (\<not> str_contains ''<Year>'' text \<longrightarrow> starts_with ''Unknown'' (Publication_Date p))
     \<and> (\<not> str_contains ''<Year>'' text \<and> \<not> str_contains ''<Month>'' text
          \<and> \<not> str_contains ''<Day>'' text \<longrightarrow> Publication_Date p = ''Unknown'')
     \<and> (\<not> str_contains ''<Author>'' text \<longrightarrow> extract_authors text = [])
     \<and> (\<not> str_contains ''<Affiliation>'' text \<longrightarrow>
          extract_affiliations text = [] \<and> Non_academic_Authors p = ''None''
          \<and> Company_Affiliations p = ''None'')
     \<and> (\<forall>r s'. http_get env s PUBMED_FETCH_URL
                  [(''db'', PStr ''pubmed''), (''id'', PStr paper_id), (''retmode'', PStr ''xml'')]
                  HEADERS = (Inr r, s')
                \<and> raise_for_status r = Inr ()
            \<longrightarrow> (\<exists>p'. fetch_paper_details env paper_id s = (Inr p', s')))"
proof -
  obtain naa where cl: "classify (extract_authors text) (extract_affiliations text)
      = Inr (naa, set (filter contains_indicator (extract_affiliations text)))"
    and naa: "naa = [] \<longleftrightarrow> filter contains_indicator (extract_affiliations text) = []"
    using classify_Inr by blast
  define p where "p = \<lparr>PubmedID = paper_id,
      Title = (case re_search title_re text of Some m \<Rightarrow> group1 m | None \<Rightarrow> ''N/A''),
      Publication_Date = clean_publication_date text,
      Non_academic_Authors = (if naa \<noteq> [] then join '', '' naa else ''None''),
      Company_Affiliations =
        (if set (filter contains_indicator (extract_affiliations text)) \<noteq> {}
         then join '', '' (iter (set (filter contains_indicator (extract_affiliations text))))
         else ''None''),
      Corresponding_Author_Email =
        (case re_search email_re text of Some m \<Rightarrow> group0 m | None \<Rightarrow> ''Not found'')\<rparr>"
  have ex: "extract_details iter paper_id text = Inr p"
    by (auto simp add: extract_details_def cl p_def)
  have id: "PubmedID p = paper_id" by (simp add: p_def)
  have title: "Title p = ''N/A''"
    if "\<not> str_contains ''<ArticleTitle>'' text \<or> \<not> str_contains ''</ArticleTitle>'' text"
  proof -
    have "re_search title_re text = None"
    proof (cases "re_search title_re text")
      case (Some m)
      from re_search_tag_contains [OF Some [unfolded title_re_def]] that show ?thesis by blast
    qed simp
    then show ?thesis by (simp add: p_def)
  qed
  have email: "Corresponding_Author_Email p = ''Not found''" if "CHR ''@'' \<notin> set text"
  proof -
    have "re_search email_re text = None"
      using that re_search_email_at by (cases "re_search email_re text") auto
    then show ?thesis by (simp add: p_def)
  qed
  have year: "starts_with ''Unknown'' (Publication_Date p)" if "\<not> str_contains ''<Year>'' text"
  proof -
    have "re_search year_re text = None"
      unfolding year_re_def using that by (rule re_search_Lit_None)
    then show ?thesis
      by (simp add: p_def clean_publication_date_def Let_def starts_with_iff)
  qed
  have date: "Publication_Date p = ''Unknown''"
    if "\<not> str_contains ''<Year>'' text \<and> \<not> str_contains ''<Month>'' text
          \<and> \<not> str_contains ''<Day>'' text"
  proof -
    have "re_search year_re text = None" "re_search month_re text = None"
      "re_search day_re text = None"
      unfolding year_re_def month_re_def day_re_def using that
      by (simp_all add: re_search_Lit_None)
    then show ?thesis
      by (simp add: p_def clean_publication_date_def)
  qed
  have authors: "extract_authors text = []" if "\<not> str_contains ''<Author>'' text"
    unfolding extract_authors_def re_findall_def author_re_def
    using that by (rule findall_from_Lit_Nil)
  have affs: "extract_affiliations text = [] \<and> Non_academic_Authors p = ''None''
          \<and> Company_Affiliations p = ''None''" if "\<not> str_contains ''<Affiliation>'' text"
  proof -
    have e: "extract_affiliations text = []"
      unfolding extract_affiliations_def re_findall_def affiliation_re_def
      using that by (rule findall_from_Lit_Nil)
    with naa have "naa = []" by simp
    with e show ?thesis by (simp add: p_def)
  qed
  have fetch: "\<exists>p'. fetch_paper_details env paper_id s = (Inr p', s')"
    if "http_get env s PUBMED_FETCH_URL
          [(''db'', PStr ''pubmed''), (''id'', PStr paper_id), (''retmode'', PStr ''xml'')]
          HEADERS = (Inr r, s') \<and> raise_for_status r = Inr ()" for r s'
  proof -
    obtain naa' cs' where "classify (extract_authors (resp_text r))
        (extract_affiliations (resp_text r)) = Inr (naa', cs')"
      using classify_Inr by blast
    then obtain p' where "extract_details (set_iter env) paper_id (resp_text r) = Inr p'"
      by (simp add: extract_details_def)
    with that show ?thesis by (simp add: fetch_paper_details_def)
  qed
  from ex id title email year date authors affs fetch show ?thesis by blast
qed

theorem extract_details_total_witness:
  "extract_details sorted_list_of_set ''7'' ''<Author>Ann</Author>''
     = Inr \<lparr>PubmedID = ''7'', Title = ''N/A'', Publication_Date = ''Unknown'',
            Non_academic_Authors = ''None'', Company_Affiliations = ''None'',
            Corresponding_Author_Email = ''Not found''\<rparr>
   \<and> (\<exists>p. fetch_paper_details (stub_env [] ''<Author>Ann</Author>'') ''7'' () = (Inr p, ()))"
proof -
  let ?t = "''<Author>Ann</Author>''"
  let ?env = "stub_env [] ?t"
  have h: "\<not> str_contains ''<ArticleTitle>'' ?t" "CHR ''@'' \<notin> set ?t"
    "\<not> str_contains ''<Year>'' ?t" "\<not> str_contains ''<Month>'' ?t"
    "\<not> str_contains ''<Day>'' ?t" "\<not> str_contains ''<Affiliation>'' ?t"
    by simp_all
  have g: "http_get ?env () PUBMED_FETCH_URL
             [(''db'', PStr ''pubmed''), (''id'', PStr ''7''), (''retmode'', PStr ''xml'')] HEADERS
           = (Inr \<lparr>status_code = 200, resp_text = ?t, resp_json = None\<rparr>, ())"
    "raise_for_status \<lparr>status_code = 200, resp_text = ?t, resp_json = None\<rparr> = Inr ()"
    by (simp_all add: stub_env_def PUBMED_FETCH_URL_def PUBMED_API_URL_def raise_for_status_def)
  from extract_details_total [of sorted_list_of_set "''7''" ?t ?env "()"] h g
  obtain p where p: "extract_details sorted_list_of_set ''7'' ?t = Inr p"
    "PubmedID p = ''7''" "Title p = ''N/A''" "Corresponding_Author_Email p = ''Not found''"
    "Publication_Date p = ''Unknown''" "Non_academic_Authors p = ''None''"
    "Company_Affiliations p = ''None''"
    and f: "\<exists>p'. fetch_paper_details ?env ''7'' () = (Inr p', ())"
    by blast
  have "p = \<lparr>PubmedID = ''7'', Title = ''N/A'', Publication_Date = ''Unknown'',
            Non_academic_Authors = ''None'', Company_Affiliations = ''None'',
            Corresponding_Author_Email = ''Not found''\<rparr>"
    using p(2-) by (cases p) simp
  with p(1) f show ?thesis by simp
qed

text \<open>
  C10.  The set \<open>cs\<close> of companies behind the field \<^verbatim>\<open>Company Affiliation(s)\<close>, which is
  the join of that set in the order the process iterates it: every member contains an
  industry indicator and is one of the affiliations extracted from the payload; and when
  no extracted affiliation contains an indicator, both the field of the non-academic
  authors and the field of the companies are the sentinel \<open>None\<close>.
\<close>

theorem company_affiliations_field:
  "\<exists>p naa cs.
      extract_details iter paper_id text = Inr p
    \<and> classify (extract_authors text) (extract_affiliations text) = Inr (naa, cs)
    \<and> (\<forall>c \<in> cs. contains_indicator c \<and> c \<in> set (extract_affiliations text))
    \<and> Company_Affiliations p = (if cs = {} then ''None'' else join '', '' (iter cs))
    \<and> ((\<forall>a \<in> set (extract_affiliations text). \<not> contains_indicator a) \<longrightarrow>
         Non_academic_Authors p = ''None'' \<and> Company_Affiliations p = ''None'')"
proof -
  let ?cs = "set (filter contains_indicator (extract_affiliations text))"
  obtain naa where cl: "classify (extract_authors text) (extract_affiliations text) = Inr (naa, ?cs)"
    and naa: "naa = [] \<longleftrightarrow> filter contains_indicator (extract_affiliations text) = []"
    using classify_Inr by blast
  obtain p where p: "extract_details iter paper_id text = Inr p"
    and na: "Non_academic_Authors p = (if naa \<noteq> [] then join '', '' naa else ''None'')"
    and ca: "Company_Affiliations p = (if ?cs \<noteq> {} then join '', '' (iter ?cs) else ''None'')"
    by (simp add: extract_details_def cl del: set_filter)
  have 1: "\<forall>c \<in> ?cs. contains_indicator c \<and> c \<in> set (extract_affiliations text)" by simp
  have 2: "Company_Affiliations p = (if ?cs = {} then ''None'' else join '', '' (iter ?cs))"
    using ca by (simp del: set_filter)
  have 3: "Non_academic_Authors p = ''None'' \<and> Company_Affiliations p = ''None''"
    if "\<forall>a \<in> set (extract_affiliations text). \<not> contains_indicator a"
  proof -
    from that have e: "filter contains_indicator (extract_affiliations text) = []"
      by (simp add: filter_empty_conv)
    have cs: "?cs = {}" unfolding e by simp
    from e naa have n: "naa = []" by simp
    from na ca show ?thesis unfolding cs n by simp
  qed
  from p cl 1 2 3 show ?thesis by blast
qed

theorem company_affiliations_field_witness:
  "(\<exists>p. extract_details sorted_list_of_set ''7''
           ''<Author>Ann</Author><Affiliation>Stanford University</Affiliation>'' = Inr p
        \<and> Non_academic_Authors p = ''None'' \<and> Company_Affiliations p = ''None'')
   \<and> extract_details sorted_list_of_set ''8''
        ''<Author>Ann</Author><Affiliation>Acme Inc</Affiliation><Affiliation>Zeta Corp</Affiliation><Affiliation>Acme Inc</Affiliation>''
      = Inr \<lparr>PubmedID = ''8'', Title = ''N/A'', Publication_Date = ''Unknown'',
             Non_academic_Authors = ''Ann, Unknown, Unknown'',
             Company_Affiliations = ''Acme Inc, Zeta Corp'',
             Corresponding_Author_Email = ''Not found''\<rparr>"
proof -
  let ?t = "''<Author>Ann</Author><Affiliation>Stanford University</Affiliation>''"
  have a: "extract_affiliations ?t = [''Stanford University'']" by code_simp
  have "\<not> is_non_academic ''Stanford University''" by code_simp
  then have h: "\<forall>a \<in> set (extract_affiliations ?t). \<not> contains_indicator a"
    by (simp add: a is_non_academic_iff)
  from company_affiliations_field [of sorted_list_of_set "''7''" ?t] h
  have 1: "\<exists>p. extract_details sorted_list_of_set ''7'' ?t = Inr p
        \<and> Non_academic_Authors p = ''None'' \<and> Company_Affiliations p = ''None''"
    by blast
  have 2: "extract_details sorted_list_of_set ''8''
        ''<Author>Ann</Author><Affiliation>Acme Inc</Affiliation><Affiliation>Zeta Corp</Affiliation><Affiliation>Acme Inc</Affiliation>''
      = Inr \<lparr>PubmedID = ''8'', Title = ''N/A'', Publication_Date = ''Unknown'',
             Non_academic_Authors = ''Ann, Unknown, Unknown'',
             Company_Affiliations = ''Acme Inc, Zeta Corp'',
             Corresponding_Author_Email = ''Not found''\<rparr>"
    by code_simp
  from 1 2 show ?thesis by blast
qed

section \<open>Properties of the search client\<close>

lemma stub_env_search:
  "http_get (stub_env ids payload) s PUBMED_API_URL params headers =
     (Inr \<lparr>status_code = 200, resp_text = [],
           resp_json = Some [''esearchresult'' \<mapsto> [''idlist'' \<mapsto> ids]]\<rparr>, s)"
  by (simp add: stub_env_def)

lemma stub_env_fetch:
  "http_get (stub_env ids payload) s PUBMED_FETCH_URL params headers =
     (Inr \<lparr>status_code = 200, resp_text = payload, resp_json = None\<rparr>, s)"
  by (simp add: stub_env_def PUBMED_FETCH_URL_def PUBMED_API_URL_def)

lemma raise_for_status_200:
  "raise_for_status \<lparr>status_code = 200, resp_text = t, resp_json = j\<rparr> = Inr ()"
  by (simp add: raise_for_status_def)

text \<open>
  C6 (amended).  The search client returns exactly the identifier list of the server's
  answer, \<^verbatim>\<open>esearchresult.idlist\<close>, in the server's order, or the empty list where one of
  the two keys is absent.  The maximum \<open>max_results\<close> travels to the server as the
  parameter \<^verbatim>\<open>retmax\<close> and is used nowhere else: the client neither cuts the list to
  \<open>max_results\<close> nor looks at the identifiers, so the list is at most that long, and of
  non-empty strings, exactly when the server's list is.
\<close>

theorem fetch_paper_ids_returns_server_idlist:
  "fetch_paper_ids env q max_results s = (Inr ids, s') \<longleftrightarrow>
     (\<exists>r data.
        http_get env s PUBMED_API_URL
          [(''db'', PStr ''pubmed''), (''term'', PStr q), (''retmode'', PStr ''json''),
           (''retmax'', PInt max_results)] HEADERS = (Inr r, s')
      \<and> raise_for_status r = Inr ()
      \<and> resp_json r = Some data
      \<and> ids = dict_get (dict_get data ''esearchresult'' Map.empty) ''idlist'' [])"
  by (auto simp: fetch_paper_ids_def Let_def split: prod.splits sum.splits option.splits)

theorem fetch_paper_ids_returns_server_idlist_witness:
  "fetch_paper_ids (stub_env [''101'', ''102''] []) ''cancer'' 10 () = (Inr [''101'', ''102''], ())"
proof -
  have "\<exists>r data.
        http_get (stub_env [''101'', ''102''] []) () PUBMED_API_URL
          [(''db'', PStr ''pubmed''), (''term'', PStr ''cancer''), (''retmode'', PStr ''json''),
           (''retmax'', PInt 10)] HEADERS = (Inr r, ())
      \<and> raise_for_status r = Inr ()
      \<and> resp_json r = Some data
      \<and> [''101'', ''102''] = dict_get (dict_get data ''esearchresult'' Map.empty) ''idlist'' []"
    by (simp add: stub_env_search raise_for_status_200 dict_get_def)
  then show ?thesis
    by (simp only: fetch_paper_ids_returns_server_idlist)
qed

text \<open>The claim as stated fails on a server that answers with more identifiers than
  asked for, one of them empty: the client returns all three for a maximum of two.\<close>

theorem fetch_paper_ids_bound_counterexample:
  "fetch_paper_ids (stub_env [''101'', ''102'', ''''] []) ''cancer'' 2 ()
     = (Inr [''101'', ''102'', ''''], ())
   \<and> \<not> length [''101'', ''102'', ''''] \<le> 2
   \<and> '''' \<in> set [''101'', ''102'', '''']"
  by (simp add: fetch_paper_ids_def stub_env_search raise_for_status_200 dict_get_def)

section \<open>Properties of the pipeline\<close>

lemma fetch_paper_details_PubmedID:
  "fetch_paper_details env paper_id s = (Inr p, s') \<Longrightarrow> PubmedID p = paper_id"
  by (auto simp: fetch_paper_details_def extract_details_def Let_def
      split: prod.splits sum.splits)

lemma fetch_all_ids:
  "fetch_all env paper_ids s = (Inr papers, s') \<Longrightarrow> map PubmedID papers = paper_ids"
proof (induction paper_ids arbitrary: s papers)
  case Nil
  then show ?case by simp
next
  case (Cons paper_id paper_ids)
  from Cons.prems obtain p s1 ps where
    p: "fetch_paper_details env paper_id s = (Inr p, s1)"
    and ps: "fetch_all env paper_ids s1 = (Inr ps, s')" and papers: "papers = p # ps"
    by (auto split: prod.splits sum.splits)
  from Cons.IH [OF ps] fetch_paper_details_PubmedID [OF p] papers show ?case by simp
qed

lemma fetch_paper_details_succeeds:
  assumes "details_succeed env"
  shows "\<exists>p s'. fetch_paper_details env paper_id s = (Inr p, s')"
proof -
  from assms obtain r t' where "http_get env s PUBMED_FETCH_URL
          [(''db'', PStr ''pubmed''), (''id'', PStr paper_id), (''retmode'', PStr ''xml'')] HEADERS
          = (Inr r, t') \<and> raise_for_status r = Inr ()"
    unfolding details_succeed_def by blast
  with extract_details_Inr [of "set_iter env" paper_id "resp_text r"]
  show ?thesis by (auto simp: fetch_paper_details_def)
qed

lemma fetch_all_succeeds:
  assumes "details_succeed env"
  shows "\<exists>papers s'. fetch_all env paper_ids s = (Inr papers, s')"
proof (induction paper_ids arbitrary: s)
  case Nil
  show ?case by simp
next
  case (Cons paper_id paper_ids)
  from fetch_paper_details_succeeds [OF assms] obtain p s1 where
    "fetch_paper_details env paper_id s = (Inr p, s1)" by blast
  moreover from Cons.IH obtain ps s2 where "fetch_all env paper_ids s1 = (Inr ps, s2)" by blast
  ultimately show ?case by simp
qed

text \<open>
  C7.  The pipeline produces one record per identifier of the search client's list, in
  the order of the list, the \<open>i\<close>-th record carrying the \<open>i\<close>-th identifier as its
  \<open>PubmedID\<close>: every list of records \<^verbatim>\<open>get_papers\<close> returns is such a list, and it
  returns one whenever the search returns identifiers and the detail calls succeed (the
  first exception of a detail call ends the run with no records).
\<close>

theorem get_papers_one_record_per_identifier:
  "(get_papers env q max_results s = (Inr papers, s') \<longrightarrow>
      (\<exists>s1. fetch_paper_ids env q max_results s = (Inr (map PubmedID papers), s1)))
   \<and> (fetch_paper_ids env q max_results s = (Inr ids, s1) \<and> details_succeed env \<longrightarrow>
      (\<exists>papers s'. get_papers env q max_results s = (Inr papers, s')
         \<and> length papers = length ids
         \<and> (\<forall>i < length ids. PubmedID (papers ! i) = ids ! i)))"
proof (intro conjI impI)
  assume g: "get_papers env q max_results s = (Inr papers, s')"
  then obtain ids s1 where ids: "fetch_paper_ids env q max_results s = (Inr ids, s1)"
    and all: "fetch_all env ids s1 = (Inr papers, s')"
    by (auto simp: get_papers_def split: prod.splits sum.splits)
  from fetch_all_ids [OF all] ids
  show "\<exists>s1. fetch_paper_ids env q max_results s = (Inr (map PubmedID papers), s1)"
    by auto
next
  assume a: "fetch_paper_ids env q max_results s = (Inr ids, s1) \<and> details_succeed env"
  then have d: "details_succeed env" by simp
  from fetch_all_succeeds [OF d, of ids s1]
  obtain papers s' where all: "fetch_all env ids s1 = (Inr papers, s')" by blast
  from fetch_all_ids [OF all] have m: "map PubmedID papers = ids" .
  then have "length papers = length ids" by (metis length_map)
  moreover have "\<forall>i < length ids. PubmedID (papers ! i) = ids ! i"
    using m by (metis nth_map length_map)
  moreover have "get_papers env q max_results s = (Inr papers, s')"
    using a all by (simp add: get_papers_def)
  ultimately show "\<exists>papers s'. get_papers env q max_results s = (Inr papers, s')
         \<and> length papers = length ids
         \<and> (\<forall>i < length ids. PubmedID (papers ! i) = ids ! i)"
    by blast
qed

theorem get_papers_one_record_per_identifier_witness:
  "\<exists>papers. get_papers (stub_env [''101'', ''102''] ''<ArticleTitle>T</ArticleTitle>'') ''cancer'' 10 ()
       = (Inr papers, ())
     \<and> length papers = 2 \<and> PubmedID (papers ! 0) = ''101'' \<and> PubmedID (papers ! 1) = ''102''"
proof -
  let ?env = "stub_env [''101'', ''102''] ''<ArticleTitle>T</ArticleTitle>''"
  have ids: "fetch_paper_ids ?env ''cancer'' 10 () = (Inr [''101'', ''102''], ())"
    by (simp add: fetch_paper_ids_def stub_env_search raise_for_status_200 dict_get_def)
  have ok: "details_succeed ?env"
    by (simp add: details_succeed_def stub_env_fetch raise_for_status_200)
  from get_papers_one_record_per_identifier [of ?env "''cancer''" 10 "()" _ _ "[''101'', ''102'']" "()"]
    ids ok
  obtain papers s' where p: "get_papers ?env ''cancer'' 10 () = (Inr papers, s')"
    "length papers = length [''101'', ''102'']"
    "\<forall>i < length [''101'', ''102'']. PubmedID (papers ! i) = [''101'', ''102''] ! i"
    by blast
  from p(3) have "PubmedID (papers ! 0) = ''101''" "PubmedID (papers ! 1) = ''102''"
    by auto
  with p(1,2) show ?thesis by auto
qed

section \<open>Properties of the command line\<close>

lemma foldl_py_print:
  "foldl (\<lambda>w paper. py_print (Repr paper) w) w papers = w\<lparr>stdout := stdout w @ map Repr papers\<rparr>"
  by (induction papers arbitrary: w) (simp_all add: py_print_def)

lemma stub_env_simps:
  "set_iter (stub_env ids payload) = sorted_list_of_set"
  "can_open (stub_env ids payload) f"
  by (simp_all add: stub_env_def)

lemma save_to_csv_Nil:
  "save_to_csv env [] filename fs =
     (if can_open env filename then (Inl IndexError, fs(filename \<mapsto> [])) else (Inl OSError, fs))"
  by (simp add: save_to_csv_def getitem_def)

text \<open>
  C9.  For every environment, query and state of the world, the run with the debug flag
  set has the result of the run with the flag unset (the same exception or the same
  success), ends in the same state of the network and of the file system, and prints
  what that run prints after one more line, the query, printed first.  The records are
  those of \<^verbatim>\<open>get_papers\<close>, which does not see the flag.
\<close>

theorem debug_flag_only_prints_query:
  "main env (a\<lparr>debug := True\<rparr>) w =
     (case main env (a\<lparr>debug := False\<rparr>) w of
        (result, w') \<Rightarrow>
          (result,
           w'\<lparr>stdout := stdout w @ [Line (''Fetching papers for query: '' @ query a)]
                          @ drop (length (stdout w)) (stdout w')\<rparr>))"
  unfolding main_def foldl_py_print
  by (auto simp: Let_def py_print_def split: prod.splits sum.splits)

theorem debug_flag_only_prints_query_witness:
  "main (stub_env [''101''] ''<ArticleTitle>T</ArticleTitle>'')
        \<lparr>query = ''cancer'', debug = True, outfile = None\<rparr>
        \<lparr>net = (), files = Map.empty, stdout = []\<rparr>
     = (Inr (),
        \<lparr>net = (), files = Map.empty,
         stdout = [Line ''Fetching papers for query: cancer'',
                   Repr \<lparr>PubmedID = ''101'', Title = ''T'', Publication_Date = ''Unknown'',
                         Non_academic_Authors = ''None'', Company_Affiliations = ''None'',
                         Corresponding_Author_Email = ''Not found''\<rparr>]\<rparr>)"
proof -
  let ?env = "stub_env [''101''] ''<ArticleTitle>T</ArticleTitle>'' :: unit env"
  let ?w = "\<lparr>net = (), files = Map.empty :: string \<rightharpoonup> string, stdout = []\<rparr>"
  let ?p = "\<lparr>PubmedID = ''101'', Title = ''T'', Publication_Date = ''Unknown'',
             Non_academic_Authors = ''None'', Company_Affiliations = ''None'',
             Corresponding_Author_Email = ''Not found''\<rparr>"
  have ids: "fetch_paper_ids ?env ''cancer'' 10 () = (Inr [''101''], ())"
    by (simp add: fetch_paper_ids_def stub_env_search raise_for_status_200 dict_get_def)
  have e: "extract_details sorted_list_of_set ''101'' ''<ArticleTitle>T</ArticleTitle>'' = Inr ?p"
    by code_simp
  have d: "fetch_paper_details ?env ''101'' () = (Inr ?p, ())"
    by (simp add: fetch_paper_details_def stub_env_fetch raise_for_status_200 stub_env_simps e)
  have g: "get_papers ?env ''cancer'' 10 () = (Inr [?p], ())"
    by (simp add: get_papers_def ids d)
  have off: "main ?env \<lparr>query = ''cancer'', debug = False, outfile = None\<rparr> ?w
     = (Inr (), \<lparr>net = (), files = Map.empty, stdout = [Repr ?p]\<rparr>)"
    unfolding main_def foldl_py_print by (simp add: g)
  from debug_flag_only_prints_query
         [of ?env "\<lparr>query = ''cancer'', debug = False, outfile = None\<rparr>" ?w]
  show ?thesis by (simp add: off)
qed

text \<open>
  C4.  With no records, writing the file fails: \<^verbatim>\<open>save_to_csv\<close> raises on the empty list
  for every file name, and where the file can be opened the exception is the
  \<^verbatim>\<open>IndexError\<close> of \<^verbatim>\<open>papers[0]\<close>, no header being derivable (this is the failure the
  specification names \<open>EmptyInputError\<close>), the file left empty.  When the query returns
  no identifier, a run in file mode ends with that exception, and a run in console mode
  returns normally, leaves the files alone and prints no record (nothing at all unless
  the debug flag asks for the query).
\<close>

theorem empty_result_file_fails_console_silent:
  "(\<exists>e fs'. save_to_csv env [] filename fs = (Inl e, fs'))
   \<and> (can_open env filename \<longrightarrow>
        save_to_csv env [] filename fs = (Inl IndexError, fs(filename \<mapsto> [])))
   \<and> (get_papers env (query a) 10 (net w) = (Inr [], s) \<longrightarrow>
        (outfile a = Some filename \<and> filename \<noteq> [] \<and> can_open env filename \<longrightarrow>
           fst (main env a w) = Inl IndexError
           \<and> files (snd (main env a w)) = (files w)(filename \<mapsto> []))
        \<and> (outfile a = None \<or> outfile a = Some [] \<longrightarrow>
           fst (main env a w) = Inr ()
           \<and> files (snd (main env a w)) = files w
           \<and> stdout (snd (main env a w)) =
               stdout w @ (if debug a then [Line (''Fetching papers for query: '' @ query a)]
                           else [])))"
  unfolding main_def foldl_py_print
  by (auto simp: save_to_csv_Nil Let_def py_print_def)

theorem empty_result_file_fails_console_silent_witness:
  "main (stub_env [] []) \<lparr>query = ''cancer'', debug = False, outfile = Some ''out.csv''\<rparr>
        \<lparr>net = (), files = Map.empty, stdout = []\<rparr>
     = (Inl IndexError, \<lparr>net = (), files = [''out.csv'' \<mapsto> []], stdout = []\<rparr>)
   \<and> main (stub_env [] []) \<lparr>query = ''cancer'', debug = False, outfile = None\<rparr>
        \<lparr>net = (), files = Map.empty, stdout = []\<rparr>
     = (Inr (), \<lparr>net = (), files = Map.empty, stdout = []\<rparr>)"
proof -
  let ?env = "stub_env [] [] :: unit env"
  let ?w = "\<lparr>net = (), files = Map.empty :: string \<rightharpoonup> string, stdout = []\<rparr>"
  let ?file = "\<lparr>query = ''cancer'', debug = False, outfile = Some ''out.csv''\<rparr>"
  let ?console = "\<lparr>query = ''cancer'', debug = False, outfile = None\<rparr>"
  have ids: "fetch_paper_ids ?env ''cancer'' 10 () = (Inr [], ())"
    by (simp add: fetch_paper_ids_def stub_env_search raise_for_status_200 dict_get_def)
  then have g: "get_papers ?env ''cancer'' 10 () = (Inr [], ())"
    by (simp add: get_papers_def)
  from empty_result_file_fails_console_silent [of ?env "''out.csv''" Map.empty ?file ?w "()"] g
  have 1: "fst (main ?env ?file ?w) = Inl IndexError"
    "files (snd (main ?env ?file ?w)) = [''out.csv'' \<mapsto> []]"
    by (simp_all add: stub_env_simps)
  have "net (snd (main ?env ?file ?w)) = ()" by simp
  moreover have "stdout (snd (main ?env ?file ?w)) = []"
    unfolding main_def foldl_py_print
    by (simp add: g save_to_csv_Nil stub_env_simps)
  ultimately have "snd (main ?env ?file ?w) = \<lparr>net = (), files = [''out.csv'' \<mapsto> []], stdout = []\<rparr>"
    using 1(2) by (cases "snd (main ?env ?file ?w)") simp
  with 1(1) have a: "main ?env ?file ?w
     = (Inl IndexError, \<lparr>net = (), files = [''out.csv'' \<mapsto> []], stdout = []\<rparr>)"
    by (metis prod.collapse)
  from empty_result_file_fails_console_silent [of ?env "''out.csv''" Map.empty ?console ?w "()"] g
  have 2: "fst (main ?env ?console ?w) = Inr ()"
    "files (snd (main ?env ?console ?w)) = Map.empty"
    "stdout (snd (main ?env ?console ?w)) = []"
    by simp_all
  have "net (snd (main ?env ?console ?w)) = ()" by simp
  with 2 have "snd (main ?env ?console ?w) = ?w"
    by (cases "snd (main ?env ?console ?w)") simp
  with 2(1) have b: "main ?env ?console ?w = (Inr (), ?w)"
    by (metis prod.collapse)
  from a b show ?thesis by simp
qed

section \<open>The round trip through the delimited file\<close>

lemma needs_quote_iff: "needs_quote g \<longleftrightarrow> (\<exists>c \<in> set g. special c)"
  by (simp add: needs_quote_def special_def list_ex_iff)

lemma parse_plain:
  "\<forall>c \<in> set g. \<not> special c \<Longrightarrow>
     csv_parse IN_FIELD f flds rows (g @ rest) = csv_parse IN_FIELD (f @ g) flds rows rest"
  by (induction g arbitrary: f) (auto simp: special_def)

lemma parse_quoted:
  "csv_parse IN_QUOTED_FIELD f flds rows
       (concat (map (\<lambda>c. if c = DQ then [DQ, DQ] else [c]) g) @ rest)
     = csv_parse IN_QUOTED_FIELD (f @ g) flds rows rest"
  by (induction g arbitrary: f) auto

lemma after_eol_CRLF: "after_eol CR (LF # rest) = rest"
  by (simp add: after_eol_def)

lemma parse_field_comma:
  "csv_parse START_FIELD [] flds rows (quote_field g @ COMMA # rest)
     = csv_parse START_FIELD [] (flds @ [g]) rows rest"
proof (cases "needs_quote g")
  case True
  then show ?thesis by (simp add: quote_field_def parse_quoted)
next
  case False
  then have ns: "\<forall>c \<in> set g. \<not> special c" by (simp add: needs_quote_iff)
  show ?thesis
  proof (cases g)
    case Nil
    with False show ?thesis by (simp add: quote_field_def)
  next
    case (Cons c g')
    with ns have c: "\<not> special c" and g': "\<forall>c \<in> set g'. \<not> special c" by auto
    from c have "csv_parse START_FIELD [] flds rows (c # g' @ COMMA # rest)
        = csv_parse IN_FIELD [c] flds rows (g' @ COMMA # rest)"
      by (simp add: special_def)
    also have "\<dots> = csv_parse IN_FIELD ([c] @ g') flds rows (COMMA # rest)"
      using g' by (rule parse_plain)
    also have "\<dots> = csv_parse START_FIELD [] (flds @ [g]) rows rest"
      using Cons by simp
    finally show ?thesis using False Cons by (simp add: quote_field_def)
  qed
qed

lemma parse_field_eol:
  "csv_parse START_FIELD [] flds rows (quote_field g @ CR # LF # rest)
     = csv_parse START_RECORD [] [] (rows @ [flds @ [g]]) rest"
proof (cases "needs_quote g")
  case True
  then show ?thesis by (simp add: quote_field_def parse_quoted after_eol_CRLF)
next
  case False
  then have ns: "\<forall>c \<in> set g. \<not> special c" by (simp add: needs_quote_iff)
  show ?thesis
  proof (cases g)
    case Nil
    with False show ?thesis by (simp add: quote_field_def after_eol_CRLF)
  next
    case (Cons c g')
    with ns have c: "\<not> special c" and g': "\<forall>c \<in> set g'. \<not> special c" by auto
    from c have "csv_parse START_FIELD [] flds rows (c # g' @ CR # LF # rest)
        = csv_parse IN_FIELD [c] flds rows (g' @ CR # LF # rest)"
      by (simp add: special_def)
    also have "\<dots> = csv_parse IN_FIELD ([c] @ g') flds rows (CR # LF # rest)"
      using g' by (rule parse_plain)
    also have "\<dots> = csv_parse START_RECORD [] [] (rows @ [flds @ [g]]) rest"
      using Cons by (simp add: after_eol_CRLF)
    finally show ?thesis using False Cons by (simp add: quote_field_def)
  qed
qed

lemma parse_fields:
  "gs \<noteq> [] \<Longrightarrow>
   csv_parse START_FIELD [] flds rows (join [COMMA] (map quote_field gs) @ CR # LF # rest)
     = csv_parse START_RECORD [] [] (rows @ [flds @ gs]) rest"
proof (induction gs arbitrary: flds rule: induct_list012)
  case 1
  then show ?case by simp
next
  case (2 g)
  show ?case by (simp add: parse_field_eol)
next
  case (3 g g' gs)
  have "csv_parse START_FIELD [] flds rows
          (join [COMMA] (map quote_field (g # g' # gs)) @ CR # LF # rest)
      = csv_parse START_FIELD [] flds rows
          (quote_field g @ COMMA # (join [COMMA] (map quote_field (g' # gs)) @ CR # LF # rest))"
    by simp
  also have "\<dots> = csv_parse START_FIELD [] (flds @ [g]) rows
          (join [COMMA] (map quote_field (g' # gs)) @ CR # LF # rest)"
    by (rule parse_field_comma)
  also have "\<dots> = csv_parse START_RECORD [] [] (rows @ [(flds @ [g]) @ g' # gs]) rest"
    by (rule "3.IH"(2)) simp
  finally show ?case by simp
qed

text \<open>The text of a row with a field in it does not begin with a line end, unless the row
  is the one empty field.\<close>

lemma join_Cons: "join sep (x # xs) = x @ (if xs = [] then [] else sep @ join sep xs)"
  by (cases xs) simp_all

lemma row_text_head:
  assumes "gs \<noteq> []" "gs \<noteq> [[]]"
  shows "\<exists>c cs. join [COMMA] (map quote_field gs) @ CR # LF # rest = c # cs \<and> c \<noteq> CR \<and> c \<noteq> LF"
proof -
  from assms(1) obtain g gs' where gs: "gs = g # gs'" by (cases gs) auto
  define t where "t = (if gs' = [] then [] else [COMMA] @ join [COMMA] (map quote_field gs'))
                      @ CR # LF # rest"
  have tx: "join [COMMA] (map quote_field gs) @ CR # LF # rest = quote_field g @ t"
    by (simp add: gs join_Cons t_def)
  show ?thesis
  proof (cases "needs_quote g")
    case True
    then show ?thesis unfolding tx by (simp add: quote_field_def)
  next
    case False
    then have ns: "\<forall>c \<in> set g. \<not> special c" by (simp add: needs_quote_iff)
    show ?thesis
    proof (cases g)
      case Nil
      with assms(2) gs have "gs' \<noteq> []" by simp
      with Nil False show ?thesis unfolding tx by (simp add: quote_field_def t_def)
    next
      case (Cons c g0)
      with ns have "\<not> special c" by simp
      with False Cons show ?thesis unfolding tx by (simp add: quote_field_def special_def)
    qed
  qed
qed

lemma parse_writerow:
  "csv_parse START_RECORD [] [] rows (csv_writerow gs @ rest)
     = csv_parse START_RECORD [] [] (rows @ [gs]) rest"
proof -
  consider "gs = []" | "gs = [[]]" | "gs \<noteq> []" "gs \<noteq> [[]]" by blast
  then show ?thesis
  proof cases
    case 1
    then show ?thesis by (simp add: csv_writerow_def after_eol_CRLF)
  next
    case 2
    then show ?thesis by (simp add: csv_writerow_def after_eol_CRLF)
  next
    case 3
    from row_text_head [OF 3] obtain c cs where
      t: "join [COMMA] (map quote_field gs) @ CR # LF # rest = c # cs" and c: "c \<noteq> CR" "c \<noteq> LF"
      by blast
    have "csv_parse START_RECORD [] [] rows (csv_writerow gs @ rest)
        = csv_parse START_RECORD [] [] rows (c # cs)"
      using 3 t by (simp add: csv_writerow_def)
    also have "\<dots> = csv_parse START_FIELD [] [] rows (c # cs)"
      using c by simp
    also have "\<dots> = csv_parse START_FIELD [] [] rows
                         (join [COMMA] (map quote_field gs) @ CR # LF # rest)"
      using t by simp
    also have "\<dots> = csv_parse START_RECORD [] [] (rows @ [[] @ gs]) rest"
      using 3(1) by (rule parse_fields)
    finally show ?thesis by simp
  qed
qed

lemma parse_writerows:
  "csv_parse START_RECORD [] [] rows (concat (map csv_writerow rs)) = rows @ rs"
proof (induction rs arbitrary: rows)
  case Nil
  show ?case by simp
next
  case (Cons r rs)
  have "csv_parse START_RECORD [] [] rows (concat (map csv_writerow (r # rs)))
      = csv_parse START_RECORD [] [] rows (csv_writerow r @ concat (map csv_writerow rs))"
    by simp
  also have "\<dots> = csv_parse START_RECORD [] [] (rows @ [r]) (concat (map csv_writerow rs))"
    by (rule parse_writerow)
  also have "\<dots> = (rows @ [r]) @ rs" by (rule Cons.IH)
  finally show ?case by simp
qed

lemma csv_read_writerows: "csv_read (concat (map csv_writerow rs)) = rs"
  by (simp add: csv_read_def parse_writerows)

text \<open>
  C8.  Writing a non-empty sequence of records and reading the file back gives the
  header row and then one row per record, in order, the six fields of each row being
  the six fields of its record character for character, whatever delimiters, quote
  characters or line ends the fields contain.
\<close>

theorem csv_round_trip:
  assumes "papers \<noteq> []" and "can_open env filename"
  shows "\<exists>fs' content.
           save_to_csv env papers filename fs = (Inr (), fs')
         \<and> fs' filename = Some content
         \<and> csv_read content = fieldnames # map row_of papers"
proof -
  from assms(1) obtain p ps where papers: "papers = p # ps" by (cases papers) auto
  let ?content = "csv_writerow fieldnames @ concat (map (\<lambda>p. csv_writerow (row_of p)) papers)"
  have w: "save_to_csv env papers filename fs = (Inr (), fs(filename \<mapsto> ?content))"
    using assms(2) by (simp add: save_to_csv_def getitem_def papers)
  have "?content = concat (map csv_writerow (fieldnames # map row_of papers))"
    by (simp add: comp_def)
  then have "csv_read ?content = fieldnames # map row_of papers"
    by (simp only: csv_read_writerows)
  with w show ?thesis by simp
qed

theorem csv_round_trip_witness:
  "\<exists>fs' content.
     save_to_csv (stub_env [] [])
       [\<lparr>PubmedID = ''101'', Title = ''Cells, tissues and organs'',
         Publication_Date = ''2021-Jan-15'', Non_academic_Authors = ''Ann, Bob'',
         Company_Affiliations = ''Acme Inc'', Corresponding_Author_Email = ''ann@acme.com''\<rparr>]
       ''out.csv'' Map.empty = (Inr (), fs')
   \<and> fs' ''out.csv'' = Some content
   \<and> csv_read content =
       [[''PubmedID'', ''Title'', ''Publication Date'', ''Non-academic Author(s)'',
         ''Company Affiliation(s)'', ''Corresponding Author Email''],
        [''101'', ''Cells, tissues and organs'', ''2021-Jan-15'', ''Ann, Bob'', ''Acme Inc'',
         ''ann@acme.com'']]"
  using csv_round_trip
    [of "[\<lparr>PubmedID = ''101'', Title = ''Cells, tissues and organs'',
           Publication_Date = ''2021-Jan-15'', Non_academic_Authors = ''Ann, Bob'',
           Company_Affiliations = ''Acme Inc'',
           Corresponding_Author_Email = ''ann@acme.com''\<rparr>]"
        "stub_env [] []" "''out.csv''" Map.empty]
  by (simp add: stub_env_simps fieldnames_def row_of_def)

text \<open>The row written for the record of the witness: the title and the authors, which
  hold a comma, are quoted.\<close>

lemma csv_writerow_example:
  "csv_writerow [''101'', ''Cells, tissues and organs'', ''2021-Jan-15'', ''Ann, Bob'',
                 ''Acme Inc'', ''ann@acme.com'']
     = ''101,'' @ [DQ] @ ''Cells, tissues and organs'' @ [DQ] @ '',2021-Jan-15,''
       @ [DQ] @ ''Ann, Bob'' @ [DQ] @ '',Acme Inc,ann@acme.com'' @ [CR, LF]"
  by (simp add: csv_writerow_def quote_field_def needs_quote_def)

end
